theory Spec2Isabelle
  imports Complex_Main "HOL-Library.Sublist"
begin

section \<open>LLM request orchestration of the notepad application\<close>

text \<open>
  The development follows \<^verbatim>\<open>main/llm-service.ts\<close> (the main-process service:
  token bucket, response cache, provider adapters with fallback, error classification) and
  \<^verbatim>\<open>src/services/LLMProcessor.ts\<close> (the renderer-side processor: debouncer, cache,
  offline spell check).

  Conventions. JavaScript numbers are modelled by exact reals, timestamps
  (\<^verbatim>\<open>Date.now()\<close>) by integers of milliseconds, strings by \<^typ>\<open>string\<close>.
  An asynchronous function is cut at its suspension points: every segment that runs without
  yielding is one function on the state, and the moment at which the next segment runs is an
  argument supplied by the environment.
\<close>

subsection \<open>Token bucket (class \<^verbatim>\<open>RateLimiter\<close>)\<close>

record rate_limiter =
  tokens :: real
  maxTokens :: real
  refillRate :: real
  lastRefillTimestamp :: int

text \<open>The constructor; \<open>now\<close> is the reading of the clock.\<close>

definition new_RateLimiter :: "real \<Rightarrow> real \<Rightarrow> int \<Rightarrow> rate_limiter" where
  "new_RateLimiter m r now =
     \<lparr>tokens = m, maxTokens = m, refillRate = r, lastRefillTimestamp = now\<rparr>"

definition refill :: "int \<Rightarrow> rate_limiter \<Rightarrow> rate_limiter" where
  "refill now rl =
     (let elapsedSeconds = real_of_int (now - lastRefillTimestamp rl) / 1000;
          tokensToAdd = elapsedSeconds * refillRate rl
      in rl\<lparr>tokens := min (maxTokens rl) (tokens rl + tokensToAdd),
             lastRefillTimestamp := now\<rparr>)"

text \<open>
  \<^verbatim>\<open>consume\<close> has one suspension point, the \<^verbatim>\<open>await\<close> of the timer. Its first
  segment either debits at once (result \<open>None\<close>) or computes the waiting time in
  milliseconds and suspends (result \<open>Some waitTime\<close>); its second segment runs when the
  timer has fired. Both segments end in \<^verbatim>\<open>return true\<close>: there is no other exit.
\<close>

definition consume_begin :: "int \<Rightarrow> real \<Rightarrow> rate_limiter \<Rightarrow> real option \<times> rate_limiter" where
  "consume_begin now n rl =
     (let rl1 = refill now rl in
      if tokens rl1 \<ge> n then (None, rl1\<lparr>tokens := tokens rl1 - n\<rparr>)
      else (Some ((n - tokens rl1) * (1000 / refillRate rl1)), rl1))"

definition consume_resume :: "int \<Rightarrow> real \<Rightarrow> rate_limiter \<Rightarrow> rate_limiter" where
  "consume_resume now n rl = (let rl1 = refill now rl in rl1\<lparr>tokens := tokens rl1 - n\<rparr>)"

text \<open>
  One caller alone: the second segment runs at the time \<open>wake w\<close> chosen by the timer for
  the waiting time \<open>w\<close>.
\<close>

definition consume :: "int \<Rightarrow> (real \<Rightarrow> int) \<Rightarrow> real \<Rightarrow> rate_limiter \<Rightarrow> bool \<times> rate_limiter" where
  "consume now wake n rl =
     (case consume_begin now n rl of
        (None, rl1) \<Rightarrow> (True, rl1)
      | (Some w, rl1) \<Rightarrow> (True, consume_resume (wake w) n rl1))"

text \<open>The bucket of the service, \<^verbatim>\<open>new RateLimiter(10, 2)\<close>, after \<open>k\<close> calls of
  \<^verbatim>\<open>consume()\<close> that all start at the same instant \<open>now\<close>.\<close>

fun burst :: "nat \<Rightarrow> int \<Rightarrow> rate_limiter \<Rightarrow> real option list \<times> rate_limiter" where
  "burst 0 now rl = ([], rl)"
| "burst (Suc k) now rl =
     (case consume_begin now 1 rl of
        (w, rl1) \<Rightarrow> (case burst k now rl1 of (ws, rl2) \<Rightarrow> (w # ws, rl2)))"

definition bucket_inv :: "rate_limiter \<Rightarrow> bool" where
  "bucket_inv rl \<longleftrightarrow> 0 \<le> tokens rl \<and> tokens rl \<le> maxTokens rl"

subsection \<open>Values, requests and responses\<close>

text \<open>
  A JavaScript value as far as the service inspects one. \<open>JObj\<close> lists the own
  properties of an object (the first binding of a name counts); \<open>JHost\<close> stands for a
  built-in object or function, named by its argument.
\<close>

datatype jsval =
    JUndefined
  | JNull
  | JBool bool
  | JNum real
  | JStr string
  | JArr "jsval list"
  | JObj "(string \<times> jsval) list"
  | JHost string

fun truthy :: "jsval \<Rightarrow> bool" where
  "truthy JUndefined = False"
| "truthy JNull = False"
| "truthy (JBool b) = b"
| "truthy (JNum x) = (x \<noteq> 0)"
| "truthy (JStr s) = (s \<noteq> [])"
| "truthy (JArr vs) = True"
| "truthy (JObj kvs) = True"
| "truthy (JHost n) = True"

text \<open>The operator \<^verbatim>\<open>a || b\<close>.\<close>

definition js_or :: "jsval \<Rightarrow> jsval \<Rightarrow> jsval" where
  "js_or a b = (if truthy a then a else b)"

text \<open>\<^verbatim>\<open>interface LLMRequest\<close>; an optional field that is absent is \<open>None\<close>
  (\<open>req_text\<close> is the field \<^verbatim>\<open>text\<close>).\<close>

record request =
  req_text :: string
  operation :: string
  style :: "string option"
  language :: "string option"

text \<open>
  One element of \<^verbatim>\<open>LLMResponse.suggestions\<close>. The adapters fill the fields from
  values of type \<^verbatim>\<open>any\<close>, so each field holds a JavaScript value.
\<close>

record suggestion =
  s_text :: jsval
  s_confidence :: jsval
  s_type :: jsval

record response =
  original :: string
  suggestions :: "suggestion list"
  error :: "string option"

text \<open>
  What a \<^verbatim>\<open>catch\<close> clause can receive, reduced to what \<^verbatim>\<open>handleError\<close>
  reads: an axios error with a response (its status, \<^verbatim>\<open>data.error.message\<close> when
  that is truthy, and the text of \<^verbatim>\<open>data?.error || statusText\<close>), an axios error
  with a request but no response, an axios error with neither, any other \<^verbatim>\<open>Error\<close>
  with its message, and a thrown value that is no \<^verbatim>\<open>Error\<close>.
\<close>

datatype js_error =
    AxiosResponse nat "string option" string
  | AxiosRequest
  | AxiosOther
  | ErrorObj string
  | Thrown

text \<open>\<^verbatim>\<open>ErrorCodes\<close> of \<^verbatim>\<open>interfaces/constants.ts\<close>, as far as used here.\<close>

definition UNKNOWN_ERROR :: string where "UNKNOWN_ERROR = ''ERR_UNKNOWN''"
definition VALIDATION_ERROR :: string where "VALIDATION_ERROR = ''ERR_VALIDATION''"
definition API_ERROR :: string where "API_ERROR = ''ERR_API''"
definition NETWORK_ERROR :: string where "NETWORK_ERROR = ''ERR_NETWORK''"
definition TIMEOUT_ERROR :: string where "TIMEOUT_ERROR = ''ERR_TIMEOUT''"
definition AUTH_ERROR :: string where "AUTH_ERROR = ''ERR_AUTH''"
definition LLM_PARSE_ERROR :: string where "LLM_PARSE_ERROR = ''ERR_LLM_PARSE''"

text \<open>\<^verbatim>\<open>String.prototype.includes\<close>.\<close>

fun str_includes :: "string \<Rightarrow> string \<Rightarrow> bool" where
  "str_includes [] pat = (pat = [])"
| "str_includes (c # cs) pat = (prefix pat (c # cs) \<or> str_includes cs pat)"

text \<open>The decimal numeral of a natural number, as a template literal prints it.\<close>

fun show_nat :: "nat \<Rightarrow> string" where
  "show_nat n =
     (if n < 10 then [char_of (n + 48)]
      else show_nat (n div 10) @ [char_of (n mod 10 + 48)])"

definition classify :: "js_error \<Rightarrow> string \<times> string" where
  "classify e =
     (case e of
        AxiosResponse status gemini_message generic \<Rightarrow>
          (API_ERROR,
           ''API Error: '' @ show_nat status @ '' - '' @
             (case gemini_message of Some m \<Rightarrow> m | None \<Rightarrow> generic))
      | AxiosRequest \<Rightarrow> (NETWORK_ERROR, ''No response received from LLM service'')
      | AxiosOther \<Rightarrow> (UNKNOWN_ERROR, ''Unknown error occurred'')
      | ErrorObj m \<Rightarrow>
          (if str_includes m ''API key'' then AUTH_ERROR
           else if str_includes m ''timeout'' then TIMEOUT_ERROR
           else UNKNOWN_ERROR, m)
      | Thrown \<Rightarrow> (UNKNOWN_ERROR, ''Unknown error occurred''))"

text \<open>\<^verbatim>\<open>LLMService.handleError\<close>: error code and message by \<open>classify\<close>.\<close>

definition handleError :: "js_error \<Rightarrow> request \<Rightarrow> response" where
  "handleError e req =
     (case classify e of
        (errorCode, errorMessage) \<Rightarrow>
          \<lparr>original = req_text req, suggestions = [],
           error = Some (errorCode @ '': '' @ errorMessage)\<rparr>)"

definition generateCacheKey :: "request \<Rightarrow> string" where
  "generateCacheKey req =
     operation req @ '':'' @ (case style req of Some s \<Rightarrow> s | None \<Rightarrow> '''') @ '':'' @
     (case language req of Some l \<Rightarrow> l | None \<Rightarrow> '''') @ '':'' @ req_text req"

subsection \<open>Response cache\<close>

text \<open>
  Modelled from the spec: the class \<^verbatim>\<open>LRUCache\<close> comes from the package
  \<^verbatim>\<open>lru-cache\<close>, which is not among the sources. The service builds it with
  \<^verbatim>\<open>max: 100\<close>, \<^verbatim>\<open>ttl\<close> one hour and \<^verbatim>\<open>allowStale: false\<close>. Entries
  are kept most recently used first, each with the time of its insertion. Reading an entry
  older than the time to live removes it and counts as absence; reading a live entry makes
  it the most recent; writing a new key into a full cache drops the least recently used
  entry.
\<close>

record 'v lru_cache =
  entries :: "(string \<times> 'v \<times> int) list"
  lru_max :: nat
  lru_ttl :: int

definition new_LRUCache :: "nat \<Rightarrow> int \<Rightarrow> 'v lru_cache" where
  "new_LRUCache m t = \<lparr>entries = [], lru_max = m, lru_ttl = t\<rparr>"

definition without :: "string \<Rightarrow> (string \<times> 'v \<times> int) list \<Rightarrow> (string \<times> 'v \<times> int) list" where
  "without k es = filter (\<lambda>e. fst e \<noteq> k) es"

text \<open>Modelled from the spec: \<^verbatim>\<open>cache.get(key)\<close> at the time \<open>now\<close>; an entry is stale
  when its age exceeds the time to live.\<close>

definition lru_get :: "int \<Rightarrow> string \<Rightarrow> 'v lru_cache \<Rightarrow> 'v option \<times> 'v lru_cache" where
  "lru_get now k c =
     (case map_of (entries c) k of
        None \<Rightarrow> (None, c)
      | Some (v, t) \<Rightarrow>
          if now - t > lru_ttl c then (None, c\<lparr>entries := without k (entries c)\<rparr>)
          else (Some v, c\<lparr>entries := (k, v, t) # without k (entries c)\<rparr>))"

text \<open>Modelled from the spec: \<^verbatim>\<open>cache.set(key, value)\<close> at the time \<open>now\<close>; writing
  an existing key replaces its value and restarts its time to live.\<close>

definition lru_set :: "int \<Rightarrow> string \<Rightarrow> 'v \<Rightarrow> 'v lru_cache \<Rightarrow> 'v lru_cache" where
  "lru_set now k v c =
     (case map_of (entries c) k of
        Some old \<Rightarrow> c\<lparr>entries := (k, v, now) # without k (entries c)\<rparr>
      | None \<Rightarrow>
          c\<lparr>entries := (k, v, now) #
               (if length (entries c) \<ge> lru_max c then butlast (entries c) else entries c)\<rparr>)"

text \<open>The key is present and not older than the time to live at time \<open>now\<close>.\<close>

definition lru_fresh :: "int \<Rightarrow> string \<Rightarrow> 'v lru_cache \<Rightarrow> bool" where
  "lru_fresh now k c =
     (case map_of (entries c) k of
        None \<Rightarrow> False
      | Some (v, t) \<Rightarrow> \<not> now - t > lru_ttl c)"

text \<open>Every response held by the cache is one without an error.\<close>

definition error_free :: "response lru_cache \<Rightarrow> bool" where
  "error_free c = (\<forall>e \<in> set (entries c). error (fst (snd e)) = None)"

subsection \<open>The service (class \<^verbatim>\<open>LLMService\<close>)\<close>

datatype adapter = LMStudio | Gemini | Ollama | OpenAI | Anthropic

text \<open>
  The surroundings of the service, which the sources do not fix:
  \<^item> \<open>post a req i\<close> is the outcome of the \<open>i\<close>-th HTTP request of a run (counted from
    0), sent by adapter \<open>a\<close> for \<open>req\<close>: the time it takes, and either the value the
    adapter's \<^verbatim>\<open>try\<close> block throws between \<^verbatim>\<open>axios.post\<close> and the
    reading of the text out of the reply, or that text;
  \<^item> \<open>JSON_parse\<close> is the built-in \<^verbatim>\<open>JSON.parse\<close>: the message of the
    \<^verbatim>\<open>SyntaxError\<close> it throws, or the value it returns;
  \<^item> \<open>timer now d\<close> is the time at which a timer set at \<open>now\<close> for \<open>d\<close>
    milliseconds runs its callback.
\<close>

record env =
  post :: "adapter \<Rightarrow> request \<Rightarrow> nat \<Rightarrow> int \<times> (js_error + string)"
  JSON_parse :: "string \<Rightarrow> string + jsval"
  timer :: "int \<Rightarrow> real \<Rightarrow> int"

text \<open>
  The fields of the service, the clock, and two logs kept for the statements below: the
  adapters entered and the HTTP requests sent, oldest first.
\<close>

record service =
  provider :: string
  apiKeys :: "string \<rightharpoonup> string"
  cache :: "response lru_cache"
  rateLimiter :: rate_limiter
  clock :: int
  invoked :: "adapter list"
  posts :: "(adapter \<times> request) list"

text \<open>
  The constructor, given \<^verbatim>\<open>process.env.DEFAULT_LLM_PROVIDER\<close> and
  \<^verbatim>\<open>process.env.GEMINI_API_KEY\<close> (each \<open>None\<close> when unset) and the time.
\<close>

definition new_LLMService :: "string option \<Rightarrow> string option \<Rightarrow> int \<Rightarrow> service" where
  "new_LLMService env_provider env_key now =
     \<lparr>provider = (case env_provider of None \<Rightarrow> ''local'' | Some p \<Rightarrow> if p = [] then ''local'' else p),
      apiKeys = [''gemini'' \<mapsto> (case env_key of None \<Rightarrow> [] | Some k \<Rightarrow> k), ''lmstudio'' \<mapsto> []],
      cache = new_LRUCache 100 (1000 * 60 * 60),
      rateLimiter = new_RateLimiter 10 2 now,
      clock = now,
      invoked = [],
      posts = []\<rparr>"

definition initialize :: "string \<Rightarrow> (string \<rightharpoonup> string) \<Rightarrow> service \<Rightarrow> service" where
  "initialize p keys s = s\<lparr>provider := p, apiKeys := apiKeys s ++ keys\<rparr>"

text \<open>The test \<^verbatim>\<open>if (this.apiKeys.gemini)\<close>: the key is present and not empty.\<close>

definition has_key :: "service \<Rightarrow> string \<Rightarrow> bool" where
  "has_key s name = (case apiKeys s name of None \<Rightarrow> False | Some k \<Rightarrow> k \<noteq> [])"

text \<open>
  \<^verbatim>\<open>responseText.match(/\[.*\]/s)\<close>, element 0 of the match: with the flag
  \<^verbatim>\<open>s\<close> the dot matches every character and the star is greedy, so the match runs
  from the first opening bracket to the last closing bracket after it.
\<close>

definition jsonMatch :: "string \<Rightarrow> string option" where
  "jsonMatch responseText =
     (case dropWhile (\<lambda>c. c \<noteq> CHR ''['') responseText of
        [] \<Rightarrow> None
      | b # after \<Rightarrow>
          (case rev (dropWhile (\<lambda>c. c \<noteq> CHR '']'') (rev after)) of
             [] \<Rightarrow> None
           | inner \<Rightarrow> Some (b # inner)))"

text \<open>
  Reading the property \<open>name\<close> of a value: a \<^verbatim>\<open>TypeError\<close> on
  \<^verbatim>\<open>null\<close> and \<^verbatim>\<open>undefined\<close>, the own property of an object, and
  \<^verbatim>\<open>undefined\<close> otherwise (no prototype has a property \<^verbatim>\<open>text\<close>,
  \<^verbatim>\<open>confidence\<close> or \<^verbatim>\<open>type\<close>, the only names read here). The messages
  of the errors are those of V8.
\<close>

fun get_prop :: "jsval \<Rightarrow> string \<Rightarrow> js_error + jsval" where
  "get_prop JNull name =
     Inl (ErrorObj (''Cannot read properties of null (reading '' @ [CHR 0x27] @ name @ [CHR 0x27] @ '')''))"
| "get_prop JUndefined name =
     Inl (ErrorObj (''Cannot read properties of undefined (reading '' @ [CHR 0x27] @ name @ [CHR 0x27] @ '')''))"
| "get_prop (JObj kvs) name = Inr (case map_of kvs name of None \<Rightarrow> JUndefined | Some v \<Rightarrow> v)"
| "get_prop v name = Inr JUndefined"

text \<open>The function mapped over the parsed array:
  \<^verbatim>\<open>s => ({text: s.text, confidence: s.confidence || 0.8, type: s.type || 'unknown'})\<close>.\<close>

definition formatSuggestion :: "jsval \<Rightarrow> js_error + suggestion" where
  "formatSuggestion s =
     (case get_prop s ''text'' of
        Inl e \<Rightarrow> Inl e
      | Inr t \<Rightarrow>
          (case get_prop s ''confidence'' of
             Inl e \<Rightarrow> Inl e
           | Inr c \<Rightarrow>
               (case get_prop s ''type'' of
                  Inl e \<Rightarrow> Inl e
                | Inr ty \<Rightarrow>
                    Inr \<lparr>s_text = t, s_confidence = js_or c (JNum 0.8),
                         s_type = js_or ty (JStr ''unknown'')\<rparr>)))"

text \<open>\<^verbatim>\<open>suggestions.map(...)\<close> on an array: the first element that throws ends it.\<close>

fun formatSuggestions :: "jsval list \<Rightarrow> js_error + suggestion list" where
  "formatSuggestions [] = Inr []"
| "formatSuggestions (v # vs) =
     (case formatSuggestion v of
        Inl e \<Rightarrow> Inl e
      | Inr s \<Rightarrow> (case formatSuggestions vs of Inl e \<Rightarrow> Inl e | Inr ss \<Rightarrow> Inr (s # ss)))"

text \<open>
  From the text of the reply to the suggestions, as both adapters do it; \<open>label\<close> is
  the name of the provider in the message of the error.
\<close>

definition parseSuggestions :: "env \<Rightarrow> string \<Rightarrow> string \<Rightarrow> js_error + suggestion list" where
  "parseSuggestions ev label responseText =
     (case jsonMatch responseText of
        None \<Rightarrow> Inl (ErrorObj (''Failed to parse '' @ label @ '' response''))
      | Some m \<Rightarrow>
          (case JSON_parse ev m of
             Inl msg \<Rightarrow> Inl (ErrorObj msg)
           | Inr (JArr vs) \<Rightarrow> formatSuggestions vs
           | Inr _ \<Rightarrow> Inl (ErrorObj ''suggestions.map is not a function'')))"

text \<open>
  The part shared by the \<^verbatim>\<open>try\<close> blocks of both adapters, from the choice of
  the prompt on: an operation other than the two known ones throws before anything is sent.
\<close>

definition request_provider :: "env \<Rightarrow> adapter \<Rightarrow> string \<Rightarrow> request \<Rightarrow> service \<Rightarrow> (js_error + response) \<times> service" where
  "request_provider ev a label req s =
     (if operation req \<noteq> ''grammar-check'' \<and> operation req \<noteq> ''rephrase''
      then (Inl (ErrorObj (''Unsupported operation: '' @ operation req)), s)
      else
        (case post ev a req (length (posts s)) of
           (latency, outcome) \<Rightarrow>
             (let s1 = s\<lparr>posts := posts s @ [(a, req)], clock := clock s + latency\<rparr> in
              case outcome of
                Inl e \<Rightarrow> (Inl e, s1)
              | Inr responseText \<Rightarrow>
                  (case parseSuggestions ev label responseText of
                     Inl e \<Rightarrow> (Inl e, s1)
                   | Inr ss \<Rightarrow>
                       (Inr \<lparr>original = req_text req, suggestions = ss, error = None\<rparr>, s1)))))"

text \<open>\<^verbatim>\<open>callGemini\<close>; its \<^verbatim>\<open>catch\<close> clause throws the error on.\<close>

definition callGemini :: "env \<Rightarrow> request \<Rightarrow> service \<Rightarrow> (js_error + response) \<times> service" where
  "callGemini ev req s =
     (let s1 = s\<lparr>invoked := invoked s @ [Gemini]\<rparr> in
      if \<not> has_key s1 ''gemini'' then (Inl (ErrorObj ''Gemini API key not configured''), s1)
      else request_provider ev Gemini ''Gemini'' req s1)"

text \<open>The \<^verbatim>\<open>try\<close> block of \<^verbatim>\<open>callLMStudio\<close>, and the whole function with
  its \<^verbatim>\<open>catch\<close> clause.\<close>

definition tryLMStudio :: "env \<Rightarrow> request \<Rightarrow> service \<Rightarrow> (js_error + response) \<times> service" where
  "tryLMStudio ev req s =
     request_provider ev LMStudio ''LM Studio'' req (s\<lparr>invoked := invoked s @ [LMStudio]\<rparr>)"

definition callLMStudio :: "env \<Rightarrow> request \<Rightarrow> service \<Rightarrow> (js_error + response) \<times> service" where
  "callLMStudio ev req s =
     (case tryLMStudio ev req s of
        (Inr r, s1) \<Rightarrow> (Inr r, s1)
      | (Inl e, s1) \<Rightarrow> if has_key s1 ''gemini'' then callGemini ev req s1 else (Inl e, s1))"

text \<open>\<^verbatim>\<open>await this.rateLimiter.consume()\<close> inside the service: when the call has to
  wait, the clock moves to the time at which the timer fires.\<close>

definition await_consume :: "env \<Rightarrow> service \<Rightarrow> service" where
  "await_consume ev s =
     (case consume_begin (clock s) 1 (rateLimiter s) of
        (None, rl) \<Rightarrow> s\<lparr>rateLimiter := rl\<rparr>
      | (Some w, rl) \<Rightarrow>
          (let t = timer ev (clock s) w in
           s\<lparr>rateLimiter := consume_resume t 1 rl, clock := t\<rparr>))"

definition cacheResponse :: "request \<Rightarrow> response \<Rightarrow> service \<Rightarrow> service" where
  "cacheResponse req r s = s\<lparr>cache := lru_set (clock s) (generateCacheKey req) r (cache s)\<rparr>"

text \<open>
  \<^verbatim>\<open>processRequest\<close>. A result \<open>Inl e\<close> would be a rejected promise, \<open>Inr r\<close> is
  a promise fulfilled with \<open>r\<close>.
\<close>

definition processRequest :: "env \<Rightarrow> request \<Rightarrow> service \<Rightarrow> (js_error + response) \<times> service" where
  "processRequest ev req s =
     (case lru_get (clock s) (generateCacheKey req) (cache s) of
        (Some cachedResponse, c) \<Rightarrow> (Inr cachedResponse, s\<lparr>cache := c\<rparr>)
      | (None, c) \<Rightarrow>
          (let s1 = await_consume ev (s\<lparr>cache := c\<rparr>) in
           case (if provider s1 = ''local'' \<or> provider s1 = ''lmstudio''
                 then callLMStudio ev req s1 else callGemini ev req s1) of
             (Inr r, s2) \<Rightarrow> (Inr r, cacheResponse req r s2)
           | (Inl e, s2) \<Rightarrow> (Inr (handleError e req), s2)))"

text \<open>
  \<^verbatim>\<open>checkGrammar\<close> and \<^verbatim>\<open>rephraseText\<close>. The second parameter is \<open>None\<close>
  when the caller leaves it out; the test \<^verbatim>\<open>!text\<close> holds of the empty string
  alone, the parameter being a string.
\<close>

definition checkGrammar :: "env \<Rightarrow> string \<Rightarrow> string option \<Rightarrow> service \<Rightarrow> (js_error + response) \<times> service" where
  "checkGrammar ev txt lang s =
     (let language = (case lang of None \<Rightarrow> ''en'' | Some l \<Rightarrow> l);
          req = \<lparr>req_text = txt, operation = ''grammar-check'', style = None, language = Some language\<rparr>
      in case (if txt = [] then (Inl (ErrorObj ''Invalid text input''), s)
               else processRequest ev req s) of
           (Inr r, s1) \<Rightarrow> (Inr r, s1)
         | (Inl e, s1) \<Rightarrow> (Inr (handleError e req), s1))"

definition rephraseText :: "env \<Rightarrow> string \<Rightarrow> string option \<Rightarrow> service \<Rightarrow> (js_error + response) \<times> service" where
  "rephraseText ev txt sty s =
     (let style = (case sty of None \<Rightarrow> ''formal'' | Some l \<Rightarrow> l);
          req = \<lparr>req_text = txt, operation = ''rephrase'', style = Some style, language = None\<rparr>
      in case (if txt = [] then (Inl (ErrorObj ''Invalid text input''), s)
               else processRequest ev req s) of
           (Inr r, s1) \<Rightarrow> (Inr r, s1)
         | (Inl e, s1) \<Rightarrow> (Inr (handleError e req), s1))"

subsection \<open>The service with three providers\<close>

text \<open>
  A second source file holds the same class with a local provider (Ollama) and two cloud
  providers (OpenAI, Anthropic). Its \<^verbatim>\<open>checkGrammar\<close>, \<^verbatim>\<open>rephraseText\<close>,
  cache and bucket are those above; what differs is the choice of the adapters and one
  message of \<^verbatim>\<open>handleError\<close>, which does not read \<^verbatim>\<open>data.error.message\<close>.
  The functions that exist in both files carry the suffix \<open>_alt\<close> here.
\<close>

definition classify_alt :: "js_error \<Rightarrow> string \<times> string" where
  "classify_alt e =
     (case e of
        AxiosResponse status gemini_message generic \<Rightarrow>
          (API_ERROR, ''API Error: '' @ show_nat status @ '' - '' @ generic)
      | _ \<Rightarrow> classify e)"

definition handleError_alt :: "js_error \<Rightarrow> request \<Rightarrow> response" where
  "handleError_alt e req =
     (case classify_alt e of
        (errorCode, errorMessage) \<Rightarrow>
          \<lparr>original = req_text req, suggestions = [],
           error = Some (errorCode @ '': '' @ errorMessage)\<rparr>)"

definition callOpenAI :: "env \<Rightarrow> request \<Rightarrow> service \<Rightarrow> (js_error + response) \<times> service" where
  "callOpenAI ev req s =
     request_provider ev OpenAI ''OpenAI'' req (s\<lparr>invoked := invoked s @ [OpenAI]\<rparr>)"

definition callAnthropic :: "env \<Rightarrow> request \<Rightarrow> service \<Rightarrow> (js_error + response) \<times> service" where
  "callAnthropic ev req s =
     request_provider ev Anthropic ''Anthropic'' req (s\<lparr>invoked := invoked s @ [Anthropic]\<rparr>)"

text \<open>\<^verbatim>\<open>callCloudLLM\<close>; its \<^verbatim>\<open>catch\<close> clause throws the error on.\<close>

definition callCloudLLM :: "env \<Rightarrow> request \<Rightarrow> service \<Rightarrow> (js_error + response) \<times> service" where
  "callCloudLLM ev req s =
     (let useAnthropicFallback = (\<not> has_key s ''openai'' \<and> has_key s ''anthropic'');
          cloud = (if provider s = ''anthropic'' \<or> useAnthropicFallback then ''anthropic'' else ''openai'')
      in if cloud = ''openai'' \<and> \<not> has_key s ''openai''
         then (Inl (ErrorObj ''OpenAI API key not configured''), s)
         else if cloud = ''anthropic'' \<and> \<not> has_key s ''anthropic''
         then (Inl (ErrorObj ''Anthropic API key not configured''), s)
         else if cloud = ''openai'' then callOpenAI ev req s
         else callAnthropic ev req s)"

text \<open>The \<^verbatim>\<open>try\<close> block of \<^verbatim>\<open>callLocalLLM\<close>, and the whole function with
  its \<^verbatim>\<open>catch\<close> clause.\<close>

definition tryLocalLLM :: "env \<Rightarrow> request \<Rightarrow> service \<Rightarrow> (js_error + response) \<times> service" where
  "tryLocalLLM ev req s =
     request_provider ev Ollama ''LLM'' req (s\<lparr>invoked := invoked s @ [Ollama]\<rparr>)"

definition callLocalLLM :: "env \<Rightarrow> request \<Rightarrow> service \<Rightarrow> (js_error + response) \<times> service" where
  "callLocalLLM ev req s =
     (case tryLocalLLM ev req s of
        (Inr r, s1) \<Rightarrow> (Inr r, s1)
      | (Inl e, s1) \<Rightarrow>
          if has_key s1 ''openai'' \<or> has_key s1 ''anthropic'' then callCloudLLM ev req s1
          else (Inl e, s1))"

definition processRequest_alt :: "env \<Rightarrow> request \<Rightarrow> service \<Rightarrow> (js_error + response) \<times> service" where
  "processRequest_alt ev req s =
     (case lru_get (clock s) (generateCacheKey req) (cache s) of
        (Some cachedResponse, c) \<Rightarrow> (Inr cachedResponse, s\<lparr>cache := c\<rparr>)
      | (None, c) \<Rightarrow>
          (let s1 = await_consume ev (s\<lparr>cache := c\<rparr>) in
           case (if provider s1 = ''local''
                 then callLocalLLM ev req s1 else callCloudLLM ev req s1) of
             (Inr r, s2) \<Rightarrow> (Inr r, cacheResponse req r s2)
           | (Inl e, s2) \<Rightarrow> (Inr (handleError_alt e req), s2)))"

text \<open>Its constructor, given \<^verbatim>\<open>DEFAULT_LLM_PROVIDER\<close>, \<^verbatim>\<open>OPENAI_API_KEY\<close>
  and \<^verbatim>\<open>ANTHROPIC_API_KEY\<close> of the environment, and its \<^verbatim>\<open>initialize\<close>,
  which replaces the keys.\<close>

definition new_LLMService_alt :: "string option \<Rightarrow> string option \<Rightarrow> string option \<Rightarrow> int \<Rightarrow> service" where
  "new_LLMService_alt env_provider env_openai env_anthropic now =
     \<lparr>provider = (case env_provider of None \<Rightarrow> ''local'' | Some p \<Rightarrow> if p = [] then ''local'' else p),
      apiKeys = [''openai'' \<mapsto> (case env_openai of None \<Rightarrow> [] | Some k \<Rightarrow> k),
                 ''anthropic'' \<mapsto> (case env_anthropic of None \<Rightarrow> [] | Some k \<Rightarrow> k)],
      cache = new_LRUCache 100 (1000 * 60 * 60),
      rateLimiter = new_RateLimiter 10 2 now,
      clock = now,
      invoked = [],
      posts = []\<rparr>"

definition initialize_alt :: "string \<Rightarrow> (string \<rightharpoonup> string) \<Rightarrow> service \<Rightarrow> service" where
  "initialize_alt p keys s = s\<lparr>provider := p, apiKeys := keys\<rparr>"

subsection \<open>Debouncer (class \<^verbatim>\<open>Debouncer\<close>)\<close>

text \<open>
  A pending timer is recorded with the promise whose \<^verbatim>\<open>resolve\<close> and
  \<^verbatim>\<open>reject\<close> its callback holds (promises are numbered by the caller), the function
  it will call, and the time at which it is due. \<^verbatim>\<open>clearTimeout\<close> on a timer that
  has fired does nothing, so a fired timer is recorded as \<open>None\<close>.
\<close>

record 'f debouncer =
  timeout :: "(nat \<times> 'f \<times> int) option"
  lastCall :: int
  delay :: int

definition new_Debouncer :: "int \<Rightarrow> 'f debouncer" where
  "new_Debouncer d = \<lparr>timeout = None, lastCall = 0, delay = d\<rparr>"

text \<open>
  The executor of the promise \<open>p\<close> that \<^verbatim>\<open>debounce(func)\<close> returns, run at time
  \<open>now\<close>: the pending timer is cleared and replaced.
\<close>

definition debounce :: "int \<Rightarrow> nat \<Rightarrow> 'f \<Rightarrow> 'f debouncer \<Rightarrow> 'f debouncer" where
  "debounce now p func d =
     (let timeSinceLastCall = now - lastCall d in
      d\<lparr>timeout := Some (p, func, now + max 0 (delay d - timeSinceLastCall))\<rparr>)"

text \<open>
  The event loop at time \<open>now\<close>: a pending timer that is due runs its callback, which
  sets \<^verbatim>\<open>lastCall\<close> and calls the function; the result names the promise and the
  function.
\<close>

definition timer_fires :: "int \<Rightarrow> 'f debouncer \<Rightarrow> (nat \<times> 'f) option \<times> 'f debouncer" where
  "timer_fires now d =
     (case timeout d of
        None \<Rightarrow> (None, d)
      | Some (p, func, due) \<Rightarrow>
          if now < due then (None, d)
          else (Some (p, func), d\<lparr>timeout := None, lastCall := now\<rparr>))"

text \<open>
  A debouncer in use: besides the debouncer itself, the promises whose function has been
  called and the promises settled so far with their outcomes (\<open>Inl\<close> rejected, \<open>Inr\<close>
  resolved), oldest first. \<open>exec func\<close> is the outcome of awaiting \<open>func\<close>.
\<close>

record ('f, 'r) debounced =
  deb :: "'f debouncer"
  called :: "nat list"
  settled :: "(nat \<times> (js_error + 'r)) list"

datatype 'f dev = Debounce int nat 'f | Timeout int

definition dstep :: "('f \<Rightarrow> js_error + 'r) \<Rightarrow> ('f, 'r) debounced \<Rightarrow> 'f dev \<Rightarrow> ('f, 'r) debounced" where
  "dstep exec sys e =
     (case e of
        Debounce now p func \<Rightarrow> sys\<lparr>deb := debounce now p func (deb sys)\<rparr>
      | Timeout now \<Rightarrow>
          (case timer_fires now (deb sys) of
             (None, d) \<Rightarrow> sys
           | (Some (p, func), d) \<Rightarrow>
               sys\<lparr>deb := d, called := called sys @ [p],
                    settled := settled sys @ [(p, exec func)]\<rparr>))"

definition drun :: "('f \<Rightarrow> js_error + 'r) \<Rightarrow> 'f dev list \<Rightarrow> ('f, 'r) debounced \<Rightarrow> ('f, 'r) debounced" where
  "drun exec es sys = foldl (dstep exec) sys es"

text \<open>The promises created by a sequence of events, and a fresh debouncer in use.\<close>

fun promises :: "'f dev list \<Rightarrow> nat list" where
  "promises [] = []"
| "promises (Debounce now p func # es) = p # promises es"
| "promises (Timeout now # es) = promises es"

definition new_debounced :: "int \<Rightarrow> ('f, 'r) debounced" where
  "new_debounced d = \<lparr>deb = new_Debouncer d, called = [], settled = []\<rparr>"

subsection \<open>Offline spell check (class \<^verbatim>\<open>LLMProcessor\<close>)\<close>

text \<open>
  White space of the regular expression class \<^verbatim>\<open>\s\<close> among the characters of
  \<^typ>\<open>char\<close>: tab, line feed, vertical tab, form feed, carriage return, space and the
  no-break space.
\<close>

definition is_space :: "char \<Rightarrow> bool" where
  "is_space c = (of_char c \<in> {9::nat, 10, 11, 12, 13, 32, 160})"

text \<open>
  \<^verbatim>\<open>text.split(/\s+/)\<close>: the pieces between the maximal runs of white space; a run
  at either end leaves an empty piece there, and the empty text gives one empty piece.
  \<open>split_from cur cs\<close> has read \<open>cur\<close> of the current piece.
\<close>

function split_from :: "string \<Rightarrow> string \<Rightarrow> string list" where
  "split_from cur [] = [cur]"
| "split_from cur (c # cs) =
     (if is_space c then cur # split_from [] (dropWhile is_space cs)
      else split_from (cur @ [c]) cs)"
  by pat_completeness auto
termination
  by (relation "measure (\<lambda>(cur, cs). length cs)") (auto simp: less_Suc_eq_le length_dropWhile_le)

definition split_ws :: "string \<Rightarrow> string list" where
  "split_ws s = split_from [] s"

text \<open>\<^verbatim>\<open>toLowerCase\<close> on the characters of \<^typ>\<open>char\<close>: the letters A to Z and the
  capital letters from 192 to 222, the multiplication sign 215 apart.\<close>

definition lower_char :: "char \<Rightarrow> char" where
  "lower_char c =
     (let n = (of_char c :: nat) in
      if (65 \<le> n \<and> n \<le> 90) \<or> (192 \<le> n \<and> n \<le> 222 \<and> n \<noteq> 215) then char_of (n + 32) else c)"

definition toLowerCase :: "string \<Rightarrow> string" where
  "toLowerCase s = map lower_char s"

definition commonMisspellings :: "(string \<times> string) list" where
  "commonMisspellings =
     [(''teh'', ''the''), (''adn'', ''and''), (''waht'', ''what''), (''thier'', ''their''),
      (''recieve'', ''receive''), (''alot'', ''a lot''), (''seperate'', ''separate''),
      (''definately'', ''definitely''), (''accomodate'', ''accommodate''),
      (''occured'', ''occurred''), (''untill'', ''until''), (''wierd'', ''weird'')]"

text \<open>
  \<^verbatim>\<open>commonMisspellings[key]\<close>. The table is an object literal, so a name that is not
  among its own properties is looked up in \<^verbatim>\<open>Object.prototype\<close>; of the names
  found there, \<^verbatim>\<open>constructor\<close> and \<^verbatim>\<open>__proto__\<close> are the two that a
  lower-cased word can be equal to.
\<close>

definition misspelling :: "string \<Rightarrow> jsval" where
  "misspelling key =
     (case map_of commonMisspellings key of
        Some v \<Rightarrow> JStr v
      | None \<Rightarrow>
          if key = ''constructor'' then JHost ''Object''
          else if key = ''__proto__'' then JHost ''Object.prototype''
          else JUndefined)"

text \<open>\<^verbatim>\<open>findMisspelledWords\<close>: pairs of \<^verbatim>\<open>original\<close> and \<^verbatim>\<open>suggestion\<close>.\<close>

definition findMisspelledWords :: "string list \<Rightarrow> (string \<times> jsval) list" where
  "findMisspelledWords ws =
     map (\<lambda>w. (w, misspelling (toLowerCase w)))
       (filter (\<lambda>w. truthy (misspelling (toLowerCase w))) ws)"

definition handleOfflineMode :: "string \<Rightarrow> response" where
  "handleOfflineMode txt =
     (let ws = split_ws txt;
          misspelledWords = findMisspelledWords ws;
          sugg = map (\<lambda>word. \<lparr>s_text = snd word, s_confidence = JNum 0.7,
                                 s_type = JStr ''spelling''\<rparr>) misspelledWords
      in \<lparr>original = txt, suggestions = sugg,
          error = (if length sugg = 0 then Some ''No issues found in offline mode'' else None)\<rparr>)"

subsection \<open>The processor of the renderer (class \<^verbatim>\<open>LLMProcessor\<close>)\<close>

text \<open>What the function handed to the debouncer closes over: the text and the option.\<close>

datatype task = GrammarTask string "string option" | RephraseTask string "string option"

fun task_text :: "task \<Rightarrow> string" where
  "task_text (GrammarTask txt lang) = txt"
| "task_text (RephraseTask txt sty) = txt"

text \<open>\<^verbatim>\<open>x || d\<close> for an optional string \<open>x\<close>.\<close>

definition or_default :: "string option \<Rightarrow> string \<Rightarrow> string" where
  "or_default x d = (case x of None \<Rightarrow> d | Some s \<Rightarrow> if s = [] then d else s)"

fun task_cacheKey :: "task \<Rightarrow> string" where
  "task_cacheKey (GrammarTask txt lang) = ''grammar:'' @ or_default lang ''en'' @ '':'' @ txt"
| "task_cacheKey (RephraseTask txt sty) = ''rephrase:'' @ or_default sty ''formal'' @ '':'' @ txt"

fun task_channel :: "task \<Rightarrow> string" where
  "task_channel (GrammarTask txt lang) = ''ai:check-grammar''"
| "task_channel (RephraseTask txt sty) = ''ai:rephrase-text''"

text \<open>
  The surroundings of the processor: \<^verbatim>\<open>navigator.onLine\<close> at a given time, and the
  outcome of the \<open>i\<close>-th call of \<^verbatim>\<open>IPCBridge.invoke\<close>. The bridge logs what
  the call of the main process throws and throws it again, also when the API of the preload
  script or its method is missing: the outcome \<open>Inl e\<close>. Otherwise the call is fulfilled
  with the value that the main process returns, \<open>None\<close> being \<^verbatim>\<open>undefined\<close>. For
  the two channels and the data used here the two checks before the call do not throw.
\<close>

record renderer_env =
  onLine :: "int \<Rightarrow> bool"
  ipc_invoke :: "string \<Rightarrow> task \<Rightarrow> nat \<Rightarrow> js_error + response option"

text \<open>
  The fields of the processor and two logs: the promises settled so far (those returned by
  \<^verbatim>\<open>checkGrammar\<close> and \<^verbatim>\<open>rephraseText\<close>, numbered by the caller) and the
  invocations of the bridge.
\<close>

record processor =
  requestDebouncer :: "task debouncer"
  response_cache :: "response lru_cache"
  p_settled :: "(nat \<times> (js_error + response option)) list"
  ipc_log :: "(string \<times> task) list"

definition new_LLMProcessor :: processor where
  "new_LLMProcessor =
     \<lparr>requestDebouncer = new_Debouncer 500,
      response_cache = new_LRUCache 100 (1000 * 60 * 60),
      p_settled = [],
      ipc_log = []\<rparr>"

text \<open>The test \<^verbatim>\<open>!response.error\<close>.\<close>

definition no_error :: "response \<Rightarrow> bool" where
  "no_error r = (case error r of None \<Rightarrow> True | Some m \<Rightarrow> m = [])"

text \<open>
  The function handed to the debouncer, run at time \<open>now\<close>. The reply of the main
  process is taken at once, so that the function is one step. What the bridge throws is
  not caught here: the function throws it in its turn, the outcome \<open>Inl e\<close>, and the
  cache is not written.
\<close>

definition run_task :: "renderer_env \<Rightarrow> int \<Rightarrow> task \<Rightarrow> processor \<Rightarrow> (js_error + response option) \<times> processor" where
  "run_task ev now t pr =
     (if \<not> onLine ev now then (Inr (Some (handleOfflineMode (task_text t))), pr)
      else
        (let pr1 = pr\<lparr>ipc_log := ipc_log pr @ [(task_channel t, t)]\<rparr>
         in case ipc_invoke ev (task_channel t) t (length (ipc_log pr)) of
              Inl e \<Rightarrow> (Inl e, pr1)
            | Inr None \<Rightarrow> (Inr None, pr1)
            | Inr (Some response) \<Rightarrow>
                (Inr (Some response),
                 if no_error response
                 then pr1\<lparr>response_cache := lru_set now (task_cacheKey t) response (response_cache pr1)\<rparr>
                 else pr1)))"

text \<open>
  \<^verbatim>\<open>checkGrammar\<close> and \<^verbatim>\<open>rephraseText\<close> of the processor, called at time
  \<open>now\<close>, \<open>p\<close> being the promise they return: up to the call of the debouncer.
\<close>

definition LLMProcessor_call :: "int \<Rightarrow> nat \<Rightarrow> task \<Rightarrow> processor \<Rightarrow> processor" where
  "LLMProcessor_call now p t pr =
     (case lru_get now (task_cacheKey t) (response_cache pr) of
        (Some cachedResponse, c) \<Rightarrow>
          pr\<lparr>response_cache := c, p_settled := p_settled pr @ [(p, Inr (Some cachedResponse))]\<rparr>
      | (None, c) \<Rightarrow>
          pr\<lparr>response_cache := c, requestDebouncer := debounce now p t (requestDebouncer pr)\<rparr>)"

definition LLMProcessor_checkGrammar :: "int \<Rightarrow> nat \<Rightarrow> string \<Rightarrow> string option \<Rightarrow> processor \<Rightarrow> processor" where
  "LLMProcessor_checkGrammar now p txt lang pr = LLMProcessor_call now p (GrammarTask txt lang) pr"

definition LLMProcessor_rephraseText :: "int \<Rightarrow> nat \<Rightarrow> string \<Rightarrow> string option \<Rightarrow> processor \<Rightarrow> processor" where
  "LLMProcessor_rephraseText now p txt sty pr = LLMProcessor_call now p (RephraseTask txt sty) pr"

text \<open>The event loop at time \<open>now\<close>: a due timer of the debouncer runs the function;
  it resolves the promise with what the function returns (\<open>Inr\<close>) and rejects it with
  what the function throws (\<open>Inl\<close>). \<^verbatim>\<open>checkGrammar\<close> and
  \<^verbatim>\<open>rephraseText\<close> log a rejection and throw it again, so that the promise they
  return is settled in the same way.\<close>

definition LLMProcessor_timer :: "renderer_env \<Rightarrow> int \<Rightarrow> processor \<Rightarrow> processor" where
  "LLMProcessor_timer ev now pr =
     (case timer_fires now (requestDebouncer pr) of
        (None, d) \<Rightarrow> pr
      | (Some (p, t), d) \<Rightarrow>
          (case run_task ev now t (pr\<lparr>requestDebouncer := d\<rparr>) of
             (res, pr1) \<Rightarrow> pr1\<lparr>p_settled := p_settled pr1 @ [(p, res)]\<rparr>))"

subsection \<open>Examples of surroundings\<close>

text \<open>Timers that fire at the first full millisecond after their delay.\<close>

definition exact_timer :: "int \<Rightarrow> real \<Rightarrow> int" where
  "exact_timer now d = now + \<lceil>d\<rceil>"

text \<open>
  No provider can be reached: every HTTP request ends after 20 ms without a response.
\<close>

definition unreachable :: env where
  "unreachable =
     \<lparr>post = (\<lambda>a req i. (20, Inl AxiosRequest)),
      JSON_parse = (\<lambda>s. Inl ''Unexpected end of JSON input''),
      timer = exact_timer\<rparr>"

text \<open>
  The local provider cannot be reached; a cloud provider answers after 300 ms with an
  empty array wrapped in a sentence. \<^verbatim>\<open>JSON.parse\<close> is given on the one text it is
  applied to, \<^verbatim>\<open>[]\<close>.
\<close>

definition cloud_only :: env where
  "cloud_only =
     \<lparr>post = (\<lambda>a req i. if a = LMStudio \<or> a = Ollama then (20, Inl AxiosRequest)
                              else (300, Inr ''Nothing to correct: [] (done)'')),
      JSON_parse = (\<lambda>s. if s = ''[]'' then Inr (JArr []) else Inl ''Unexpected token''),
      timer = exact_timer\<rparr>"

text \<open>
  The local provider answers after 50 ms with the text \<open>reply\<close>. \<^verbatim>\<open>JSON.parse\<close>
  is given on the two texts it is applied to below: it returns the empty array for
  \<^verbatim>\<open>[]\<close> and throws for \<^verbatim>\<open>[note 1]: []\<close> (the message, which depends on
  the engine, is cut short).
\<close>

definition local_reply :: "string \<Rightarrow> env" where
  "local_reply reply =
     \<lparr>post = (\<lambda>a req i. (50, Inr reply)),
      JSON_parse = (\<lambda>s. if s = ''[]'' then Inr (JArr []) else Inl ''Unexpected token''),
      timer = exact_timer\<rparr>"

definition grammar_request :: "string \<Rightarrow> request" where
  "grammar_request txt =
     \<lparr>req_text = txt, operation = ''grammar-check'', style = None, language = Some ''en''\<rparr>"


definition on_line :: "response option \<Rightarrow> renderer_env" where
  "on_line reply = \<lparr>onLine = (\<lambda>now. True), ipc_invoke = (\<lambda>channel t i. Inr reply)\<rparr>"

definition on_line_throwing :: "js_error \<Rightarrow> renderer_env" where
  "on_line_throwing e = \<lparr>onLine = (\<lambda>now. True), ipc_invoke = (\<lambda>channel t i. Inl e)\<rparr>"

text \<open>
  The local provider answers with one correction, as a JSON array inside a fenced block:
  \<^verbatim>\<open>[{"text":"He goes to school","confidence":0.95,"type":"grammar"}]\<close>.
  \<^verbatim>\<open>JSON.parse\<close> is given on that array.
\<close>

definition quoted :: "string \<Rightarrow> string" where
  "quoted s = CHR 0x22 # s @ [CHR 0x22]"

definition school_inner :: string where
  "school_inner =
     ''{'' @ quoted ''text'' @ '':'' @ quoted ''He goes to school'' @ '','' @
     quoted ''confidence'' @ '':0.95,'' @ quoted ''type'' @ '':'' @ quoted ''grammar'' @ ''}''"

definition school_reply :: string where
  "school_reply = ''```json'' @ [CHR 0x0A] @ ''['' @ school_inner @ '']'' @ [CHR 0x0A] @ ''```''"

definition school_env :: env where
  "school_env =
     \<lparr>post = (\<lambda>a req i. (50, Inr school_reply)),
      JSON_parse = (\<lambda>s. if s = ''['' @ school_inner @ '']''
                         then Inr (JArr [JObj [(''text'', JStr ''He goes to school''),
                                              (''confidence'', JNum 0.95),
                                              (''type'', JStr ''grammar'')]])
                         else Inl ''Unexpected token''),
      timer = exact_timer\<rparr>"

subsection \<open>Properties of the token bucket\<close>

lemma refill_fields [simp]:
  "maxTokens (refill now rl) = maxTokens rl"
  "refillRate (refill now rl) = refillRate rl"
  "lastRefillTimestamp (refill now rl) = now"
  by (simp_all add: refill_def Let_def)

lemma refill_tokens:
  "tokens (refill now rl) =
     min (maxTokens rl) (tokens rl + real_of_int (now - lastRefillTimestamp rl) / 1000 * refillRate rl)"
  by (simp add: refill_def Let_def)

lemma refill_capped: "tokens (refill now rl) \<le> maxTokens rl"
  by (simp add: refill_tokens)

lemma refill_monotone:
  assumes "lastRefillTimestamp rl \<le> now" and "0 \<le> refillRate rl" and "tokens rl \<le> maxTokens rl"
  shows "tokens rl \<le> tokens (refill now rl)"
proof -
  have "0 \<le> real_of_int (now - lastRefillTimestamp rl) / 1000 * refillRate rl"
    using assms(1,2) by simp
  then show ?thesis using assms(3) by (simp add: refill_tokens)
qed

lemma refill_inv:
  assumes "bucket_inv rl" and "lastRefillTimestamp rl \<le> now" and "0 \<le> refillRate rl"
  shows "bucket_inv (refill now rl)"
  using refill_monotone [OF assms(2,3)] refill_capped [of now rl] assms(1)
  by (simp add: bucket_inv_def)

lemma consume_returns_true: "fst (consume now wake n rl) = True"
  by (simp add: consume_def split: prod.splits option.splits)

text \<open>
  A single caller keeps the bucket within its bounds, provided the clock does not run
  backwards, the timer does not fire early and no more than the capacity is asked for.
\<close>

lemma consume_alone_inv:
  assumes inv: "bucket_inv rl"
    and clock: "lastRefillTimestamp rl \<le> now"
    and rate: "0 < refillRate rl"
    and cost: "0 \<le> n" "n \<le> maxTokens rl"
    and timer: "\<And>w. real_of_int now + w \<le> real_of_int (wake w)"
  shows "bucket_inv (snd (consume now wake n rl))"
proof -
  define rl1 where "rl1 = refill now rl"
  have inv1: "bucket_inv rl1"
    unfolding rl1_def using inv clock rate by (intro refill_inv) simp_all
  show ?thesis
  proof (cases "tokens rl1 \<ge> n")
    case True
    then have "snd (consume now wake n rl) = rl1\<lparr>tokens := tokens rl1 - n\<rparr>"
      by (simp add: consume_def consume_begin_def rl1_def Let_def)
    then show ?thesis using True inv1 cost by (simp add: bucket_inv_def)
  next
    case False
    define w where "w = (n - tokens rl1) * (1000 / refillRate rl1)"
    define rl2 where "rl2 = refill (wake w) rl1"
    have res: "snd (consume now wake n rl) = rl2\<lparr>tokens := tokens rl2 - n\<rparr>"
      using False
      by (simp add: consume_def consume_begin_def consume_resume_def rl1_def rl2_def w_def Let_def)
    have r1: "refillRate rl1 = refillRate rl" "maxTokens rl1 = maxTokens rl"
      "lastRefillTimestamp rl1 = now"
      by (simp_all add: rl1_def)
    have "w \<le> real_of_int (wake w) - real_of_int now"
      using timer [of w] by simp
    then have "w / 1000 * refillRate rl \<le> real_of_int (wake w - now) / 1000 * refillRate rl"
      using rate by (simp add: divide_right_mono mult_right_mono)
    moreover have "w / 1000 * refillRate rl = n - tokens rl1"
      using rate by (simp add: w_def r1)
    ultimately have enough: "n \<le> tokens rl1 + real_of_int (wake w - now) / 1000 * refillRate rl"
      by simp
    have "tokens rl2 = min (maxTokens rl) (tokens rl1 + real_of_int (wake w - now) / 1000 * refillRate rl)"
      by (simp add: rl2_def refill_tokens r1)
    then have lo: "n \<le> tokens rl2" and hi: "tokens rl2 \<le> maxTokens rl"
      using enough cost(2) by simp_all
    have "maxTokens rl2 = maxTokens rl"
      by (simp add: rl2_def r1)
    then show ?thesis using res cost(1) lo hi by (simp add: bucket_inv_def)
  qed
qed

text \<open>
  C6. The claim is that the bucket never holds a negative number of tokens, because
  \<^verbatim>\<open>consume\<close> waits until the tokens it needs have accrued. Two callers that wait at
  the same time break it: on the bucket of the service (capacity 10, 2 tokens per second),
  twelve calls of \<^verbatim>\<open>consume()\<close> start at time 0; the first ten debit at once, the last
  two each find the bucket empty and wait 500 ms; at time 500 the first of them refills the
  bucket to 1 and debits it, the second refills nothing and debits again: -1 token. A single
  caller breaks it by asking for more than the capacity: \<^verbatim>\<open>consume(11)\<close> on the full
  bucket waits 500 ms, finds the bucket still at its capacity 10, and debits 11.
\<close>

theorem consume_two_waiters_negative:
  "burst 12 0 (new_RateLimiter 10 2 0) =
     (replicate 10 None @ [Some 500, Some 500],
      \<lparr>tokens = 0, maxTokens = 10, refillRate = 2, lastRefillTimestamp = 0\<rparr>)
   \<and> tokens (consume_resume 500 1 (consume_resume 500 1 (snd (burst 12 0 (new_RateLimiter 10 2 0))))) = -1
   \<and> \<not> bucket_inv (consume_resume 500 1 (consume_resume 500 1 (snd (burst 12 0 (new_RateLimiter 10 2 0)))))
   \<and> consume 0 (exact_timer 0) 11 (new_RateLimiter 10 2 0) =
       (True, \<lparr>tokens = -1, maxTokens = 10, refillRate = 2, lastRefillTimestamp = 500\<rparr>)"
proof -
  have b: "burst 12 0 (new_RateLimiter 10 2 0) =
     (replicate 10 None @ [Some 500, Some 500],
      \<lparr>tokens = 0, maxTokens = 10, refillRate = 2, lastRefillTimestamp = 0\<rparr>)"
    by (simp add: eval_nat_numeral new_RateLimiter_def consume_begin_def refill_def Let_def)
  have c: "consume 0 (exact_timer 0) 11 (new_RateLimiter 10 2 0) =
       (True, \<lparr>tokens = -1, maxTokens = 10, refillRate = 2, lastRefillTimestamp = 500\<rparr>)"
    by (simp add: consume_def consume_begin_def consume_resume_def refill_def new_RateLimiter_def
        exact_timer_def Let_def)
  show ?thesis
    unfolding b c by (simp add: consume_resume_def refill_def Let_def bucket_inv_def)
qed

subsection \<open>Properties of the service: what each step leaves unchanged\<close>

lemma request_provider_frame:
  "request_provider ev a label req s = (res, s1) \<Longrightarrow>
     invoked s1 = invoked s \<and> apiKeys s1 = apiKeys s \<and> provider s1 = provider s \<and>
     cache s1 = cache s \<and> rateLimiter s1 = rateLimiter s"
  by (auto simp: request_provider_def Let_def split: if_splits prod.splits sum.splits)

lemma request_provider_no_error:
  "request_provider ev a label req s = (Inr r, s1) \<Longrightarrow> error r = None"
  by (auto simp: request_provider_def Let_def split: if_splits prod.splits sum.splits)

lemma has_key_cong: "apiKeys s1 = apiKeys s \<Longrightarrow> has_key s1 k = has_key s k"
  by (simp add: has_key_def)

lemma callGemini_frame:
  "callGemini ev req s = (res, s1) \<Longrightarrow>
     invoked s1 = invoked s @ [Gemini] \<and> apiKeys s1 = apiKeys s \<and> provider s1 = provider s \<and>
     cache s1 = cache s \<and> rateLimiter s1 = rateLimiter s"
  by (auto simp: callGemini_def Let_def split: if_splits dest!: request_provider_frame)

lemma callGemini_no_error:
  "callGemini ev req s = (Inr r, s1) \<Longrightarrow> error r = None"
  by (auto simp: callGemini_def Let_def split: if_splits dest!: request_provider_no_error)

lemma tryLMStudio_frame:
  "tryLMStudio ev req s = (res, s1) \<Longrightarrow>
     invoked s1 = invoked s @ [LMStudio] \<and> apiKeys s1 = apiKeys s \<and> provider s1 = provider s \<and>
     cache s1 = cache s \<and> rateLimiter s1 = rateLimiter s"
  by (auto simp: tryLMStudio_def dest!: request_provider_frame)

lemma tryLMStudio_no_error:
  "tryLMStudio ev req s = (Inr r, s1) \<Longrightarrow> error r = None"
  by (auto simp: tryLMStudio_def dest!: request_provider_no_error)

lemma callLMStudio_no_error:
  "callLMStudio ev req s = (Inr r, s1) \<Longrightarrow> error r = None"
  by (auto simp: callLMStudio_def split: prod.splits sum.splits if_splits
      dest: tryLMStudio_no_error callGemini_no_error)

lemma callLMStudio_frame:
  "callLMStudio ev req s = (res, s1) \<Longrightarrow>
     apiKeys s1 = apiKeys s \<and> provider s1 = provider s \<and>
     cache s1 = cache s \<and> rateLimiter s1 = rateLimiter s \<and>
     (invoked s1 = invoked s @ [LMStudio] \<or> invoked s1 = invoked s @ [LMStudio, Gemini])"
  by (auto simp: callLMStudio_def split: prod.splits sum.splits if_splits
      dest!: tryLMStudio_frame callGemini_frame)

lemma await_consume_frame:
  "invoked (await_consume ev s) = invoked s"
  "posts (await_consume ev s) = posts s"
  "apiKeys (await_consume ev s) = apiKeys s"
  "provider (await_consume ev s) = provider s"
  "cache (await_consume ev s) = cache s"
  by (simp_all add: await_consume_def Let_def split: prod.splits option.splits)

text \<open>Inside the service the bucket is used as by a single caller.\<close>

lemma await_consume_consume:
  "rateLimiter (await_consume ev s) = snd (consume (clock s) (timer ev (clock s)) 1 (rateLimiter s))"
  by (simp add: await_consume_def consume_def Let_def split: prod.splits option.splits)

lemma handleError_shape:
  "suggestions (handleError e req) = []"
  "original (handleError e req) = req_text req"
  "error (handleError e req) \<noteq> None"
  "error (handleError e req) \<noteq> Some []"
  by (simp_all add: handleError_def split: prod.splits)

lemma processRequest_fulfils: "\<exists>r. fst (processRequest ev req s) = Inr r"
  by (auto simp: processRequest_def Let_def split: prod.splits option.splits sum.splits)

lemma checkGrammar_fulfils: "\<exists>r. fst (checkGrammar ev txt lang s) = Inr r"
  by (auto simp: checkGrammar_def Let_def split: prod.splits sum.splits)

lemma rephraseText_fulfils: "\<exists>r. fst (rephraseText ev txt sty s) = Inr r"
  by (auto simp: rephraseText_def Let_def split: prod.splits sum.splits)

subsection \<open>Properties of the extraction of the array\<close>

lemma dropWhile_head: "dropWhile P xs = b # ys \<Longrightarrow> \<not> P b"
  using hd_dropWhile [of P xs] by auto

lemma dropWhile_keeps_suffix:
  "\<not> P x \<Longrightarrow> \<exists>zs. dropWhile P (pfx @ x # rest) = zs @ x # rest"
proof (cases "\<forall>y\<in>set pfx. P y")
  case True
  assume "\<not> P x"
  then have "dropWhile P (pfx @ x # rest) = [] @ x # rest"
    using True by (subst dropWhile_append2) auto
  then show ?thesis by blast
next
  case False
  then have "dropWhile P (pfx @ x # rest) = dropWhile P pfx @ x # rest"
    by auto
  then show ?thesis by blast
qed

text \<open>The match runs from the first opening bracket to the last closing bracket.\<close>

lemma jsonMatch_bracketed:
  assumes "CHR ''['' \<notin> set pfx" and "CHR '']'' \<notin> set sfx"
  shows "jsonMatch (pfx @ CHR ''['' # mid @ CHR '']'' # sfx) = Some (CHR ''['' # mid @ [CHR '']''])"
proof -
  have a: "dropWhile (\<lambda>c. c \<noteq> CHR ''['') (pfx @ CHR ''['' # mid @ CHR '']'' # sfx)
           = CHR ''['' # mid @ CHR '']'' # sfx"
    using assms(1) by (subst dropWhile_append2) auto
  have b: "dropWhile (\<lambda>c. c \<noteq> CHR '']'') (rev sfx @ CHR '']'' # rev mid) = CHR '']'' # rev mid"
    using assms(2) by (subst dropWhile_append2) auto
  show ?thesis
    unfolding jsonMatch_def a by (simp add: b split: list.splits)
qed

lemma jsonMatch_Some_decomp:
  assumes "jsonMatch s = Some m"
  shows "\<exists>pfx mid sfx. s = pfx @ CHR ''['' # mid @ CHR '']'' # sfx \<and> CHR ''['' \<notin> set pfx
           \<and> CHR '']'' \<notin> set sfx \<and> m = CHR ''['' # mid @ [CHR '']'']"
proof -
  define pfx where "pfx = takeWhile (\<lambda>c. c \<noteq> CHR ''['') s"
  obtain b after where d: "dropWhile (\<lambda>c. c \<noteq> CHR ''['') s = b # after"
    using assms by (auto simp: jsonMatch_def split: list.splits)
  have b: "b = CHR ''[''" using dropWhile_head [OF d] by simp
  have s: "s = pfx @ CHR ''['' # after"
    using d b takeWhile_dropWhile_id [of "\<lambda>c. c \<noteq> CHR ''[''" s] by (simp add: pfx_def)
  define sfx where "sfx = rev (takeWhile (\<lambda>c. c \<noteq> CHR '']'') (rev after))"
  obtain x inner where i: "rev (dropWhile (\<lambda>c. c \<noteq> CHR '']'') (rev after)) = x # inner"
    and m: "m = b # x # inner"
    using assms d by (auto simp: jsonMatch_def split: list.splits)
  have ne: "dropWhile (\<lambda>c. c \<noteq> CHR '']'') (rev after) \<noteq> []" using i by auto
  then obtain y rmid where r0: "dropWhile (\<lambda>c. c \<noteq> CHR '']'') (rev after) = y # rmid"
    by (meson neq_Nil_conv)
  have r: "dropWhile (\<lambda>c. c \<noteq> CHR '']'') (rev after) = CHR '']'' # rmid"
    using dropWhile_head [OF r0] r0 by simp
  have "rev after = rev sfx @ CHR '']'' # rmid"
    using takeWhile_dropWhile_id [of "\<lambda>c. c \<noteq> CHR '']''" "rev after"] r by (simp add: sfx_def)
  then have "rev (rev after) = rev (rev sfx @ CHR '']'' # rmid)" by simp
  then have after: "after = rev rmid @ CHR '']'' # sfx"
    by simp
  have "CHR ''['' \<notin> set pfx" unfolding pfx_def by (auto dest: set_takeWhileD)
  moreover have "CHR '']'' \<notin> set sfx" unfolding sfx_def by (auto dest: set_takeWhileD)
  moreover have "m = CHR ''['' # rev rmid @ [CHR '']'']" using m i r b by simp
  ultimately show ?thesis using s after by blast
qed

text \<open>There is no match exactly when no closing bracket follows an opening bracket.\<close>

lemma jsonMatch_None_iff:
  "jsonMatch s = None \<longleftrightarrow> \<not> (\<exists>pfx mid sfx. s = pfx @ CHR ''['' # mid @ CHR '']'' # sfx)"
proof
  assume n: "jsonMatch s = None"
  show "\<not> (\<exists>pfx mid sfx. s = pfx @ CHR ''['' # mid @ CHR '']'' # sfx)"
  proof
    assume "\<exists>pfx mid sfx. s = pfx @ CHR ''['' # mid @ CHR '']'' # sfx"
    then obtain pfx mid sfx where s: "s = pfx @ CHR ''['' # mid @ CHR '']'' # sfx" by blast
    obtain zs where z: "dropWhile (\<lambda>c. c \<noteq> CHR ''['') s = zs @ CHR ''['' # mid @ CHR '']'' # sfx"
      unfolding s using dropWhile_keeps_suffix [of "\<lambda>c. c \<noteq> CHR ''[''" "CHR ''[''" pfx "mid @ CHR '']'' # sfx"]
      by auto
    then have "dropWhile (\<lambda>c. c \<noteq> CHR ''['') s \<noteq> []" by simp
    then obtain b after where d: "dropWhile (\<lambda>c. c \<noteq> CHR ''['') s = b # after"
      by (meson neq_Nil_conv)
    have b: "b = CHR ''[''" using dropWhile_head [OF d] by simp
    have "CHR '']'' \<in> set (zs @ CHR ''['' # mid @ CHR '']'' # sfx)" by simp
    then have "CHR '']'' \<in> set (b # after)" using z d by simp
    then have "CHR '']'' \<in> set after" using b by simp
    then have "dropWhile (\<lambda>c. c \<noteq> CHR '']'') (rev after) \<noteq> []" by auto
    then show False using n d by (auto simp: jsonMatch_def split: list.splits)
  qed
next
  assume "\<not> (\<exists>pfx mid sfx. s = pfx @ CHR ''['' # mid @ CHR '']'' # sfx)"
  then show "jsonMatch s = None"
    using jsonMatch_Some_decomp [of s] by (cases "jsonMatch s") auto
qed

subsection \<open>Empty text\<close>

text \<open>
  C1 claims that \<^verbatim>\<open>checkGrammar\<close>, \<^verbatim>\<open>rephraseText\<close> and
  \<^verbatim>\<open>processRequest\<close> reject a request with empty text by throwing, before the cache,
  the bucket and the network are touched. On a new service with no provider in reach,
  \<^verbatim>\<open>checkGrammar\<close> and \<^verbatim>\<open>rephraseText\<close> are fulfilled with a response that
  carries the code \<^verbatim>\<open>ERR_UNKNOWN\<close>, and \<^verbatim>\<open>processRequest\<close>, which has no
  check of its own, takes a token and sends a request.
\<close>

theorem empty_text_not_thrown:
  "fst (checkGrammar unreachable [] None (new_LLMService None None 0)) =
     Inr \<lparr>original = [], suggestions = [], error = Some ''ERR_UNKNOWN: Invalid text input''\<rparr>
   \<and> fst (rephraseText unreachable [] None (new_LLMService None None 0)) =
     Inr \<lparr>original = [], suggestions = [], error = Some ''ERR_UNKNOWN: Invalid text input''\<rparr>
   \<and> tokens (rateLimiter (snd (processRequest unreachable (grammar_request []) (new_LLMService None None 0)))) = 9
   \<and> posts (snd (processRequest unreachable (grammar_request []) (new_LLMService None None 0)))
       = [(LMStudio, grammar_request [])]"
  by (simp add: checkGrammar_def rephraseText_def handleError_def classify_def UNKNOWN_ERROR_def
      processRequest_def new_LLMService_def new_LRUCache_def new_RateLimiter_def lru_get_def
      generateCacheKey_def grammar_request_def await_consume_def consume_begin_def refill_def
      callLMStudio_def tryLMStudio_def request_provider_def unreachable_def has_key_def Let_def)

text \<open>
  C1 as amended: for empty text, \<^verbatim>\<open>checkGrammar\<close> and \<^verbatim>\<open>rephraseText\<close> return
  a response with the empty original, no suggestions and the error
  \<^verbatim>\<open>ERR_UNKNOWN: Invalid text input\<close>, and leave the service as it was: no look-up in
  the cache, no token taken, no adapter entered, nothing sent. Nothing is thrown.
\<close>

theorem empty_text_error_response:
  "checkGrammar ev [] lang s =
     (Inr \<lparr>original = [], suggestions = [], error = Some ''ERR_UNKNOWN: Invalid text input''\<rparr>, s)
   \<and> rephraseText ev [] sty s =
     (Inr \<lparr>original = [], suggestions = [], error = Some ''ERR_UNKNOWN: Invalid text input''\<rparr>, s)"
  by (simp add: checkGrammar_def rephraseText_def handleError_def classify_def UNKNOWN_ERROR_def)

subsection \<open>Fallback\<close>

lemma fallback_lmstudio:
  assumes local: "provider s = ''local'' \<or> provider s = ''lmstudio''"
    and miss: "lru_get (clock s) (generateCacheKey req) (cache s) = (None, c)"
    and fails: "tryLMStudio ev req (await_consume ev (s\<lparr>cache := c\<rparr>)) = (Inl e, s1)"
  shows "if has_key s ''gemini''
         then (case callGemini ev req s1 of
                 (Inr r, s2) \<Rightarrow>
                   processRequest ev req s = (Inr r, cacheResponse req r s2) \<and>
                   invoked (cacheResponse req r s2) = invoked s @ [LMStudio, Gemini]
               | (Inl e2, s2) \<Rightarrow>
                   processRequest ev req s = (Inr (handleError e2 req), s2) \<and>
                   invoked s2 = invoked s @ [LMStudio, Gemini])
         else processRequest ev req s = (Inr (handleError e req), s1) \<and>
              invoked s1 = invoked s @ [LMStudio] \<and>
              error (handleError e req) \<noteq> None \<and> suggestions (handleError e req) = []"
proof -
  define s0 where "s0 = await_consume ev (s\<lparr>cache := c\<rparr>)"
  have p0: "provider s0 = ''local'' \<or> provider s0 = ''lmstudio''"
    using local by (simp add: s0_def await_consume_frame)
  have i0: "invoked s0 = invoked s" and k0: "apiKeys s0 = apiKeys s"
    by (simp_all add: s0_def await_consume_frame)
  have f1: "invoked s1 = invoked s @ [LMStudio]" and k1: "apiKeys s1 = apiKeys s"
    using tryLMStudio_frame [OF fails [folded s0_def]] i0 k0 by simp_all
  have key: "has_key s1 ''gemini'' = has_key s ''gemini''"
    using k1 by (rule has_key_cong)
  have pr: "processRequest ev req s =
      (case callLMStudio ev req s0 of
         (Inr r, s2) \<Rightarrow> (Inr r, cacheResponse req r s2)
       | (Inl e, s2) \<Rightarrow> (Inr (handleError e req), s2))"
    using miss p0 by (auto simp: processRequest_def Let_def s0_def)
  have cl: "callLMStudio ev req s0 =
      (if has_key s ''gemini'' then callGemini ev req s1 else (Inl e, s1))"
    using fails key by (simp add: callLMStudio_def s0_def)
  show ?thesis
  proof (cases "has_key s ''gemini''")
    case True
    obtain res s2 where g: "callGemini ev req s1 = (res, s2)" by (cases "callGemini ev req s1")
    have i2: "invoked s2 = invoked s @ [LMStudio, Gemini]"
      using callGemini_frame [OF g] f1 by simp
    show ?thesis
      using True g i2 by (cases res) (simp_all add: pr cl cacheResponse_def)
  next
    case False
    then show ?thesis
      using f1 by (simp add: pr cl handleError_shape)
  qed
qed

text \<open>The same for the service with three providers.\<close>

lemma callOpenAI_frame:
  "callOpenAI ev req s = (res, s1) \<Longrightarrow> invoked s1 = invoked s @ [OpenAI] \<and> apiKeys s1 = apiKeys s"
  by (auto simp: callOpenAI_def dest!: request_provider_frame)

lemma callAnthropic_frame:
  "callAnthropic ev req s = (res, s1) \<Longrightarrow> invoked s1 = invoked s @ [Anthropic] \<and> apiKeys s1 = apiKeys s"
  by (auto simp: callAnthropic_def dest!: request_provider_frame)

lemma tryLocalLLM_frame:
  "tryLocalLLM ev req s = (res, s1) \<Longrightarrow>
     invoked s1 = invoked s @ [Ollama] \<and> apiKeys s1 = apiKeys s \<and> provider s1 = provider s"
  by (auto simp: tryLocalLLM_def dest!: request_provider_frame)

text \<open>Called as the fallback of the local provider, with one of the two keys at hand,
  \<^verbatim>\<open>callCloudLLM\<close> enters exactly one of the two cloud adapters.\<close>

lemma callCloudLLM_fallback:
  assumes "callCloudLLM ev req s = (res, s1)" and "provider s = ''local''"
    and "has_key s ''openai'' \<or> has_key s ''anthropic''"
  shows "invoked s1 = invoked s @ [if has_key s ''openai'' then OpenAI else Anthropic]"
proof (cases "has_key s ''openai''")
  case True
  then have "callOpenAI ev req s = (res, s1)"
    using assms(1,2) by (simp add: callCloudLLM_def Let_def)
  then show ?thesis using True callOpenAI_frame by simp
next
  case False
  then have "callAnthropic ev req s = (res, s1)"
    using assms by (simp add: callCloudLLM_def Let_def)
  then show ?thesis using False callAnthropic_frame by simp
qed

lemma handleError_alt_shape:
  "suggestions (handleError_alt e req) = []"
  "original (handleError_alt e req) = req_text req"
  "error (handleError_alt e req) \<noteq> None"
  by (simp_all add: handleError_alt_def split: prod.splits)

lemma fallback_ollama:
  assumes local: "provider s = ''local''"
    and miss: "lru_get (clock s) (generateCacheKey req) (cache s) = (None, c)"
    and fails: "tryLocalLLM ev req (await_consume ev (s\<lparr>cache := c\<rparr>)) = (Inl e, s1)"
  shows "if has_key s ''openai'' \<or> has_key s ''anthropic''
         then (case callCloudLLM ev req s1 of
                 (Inr r, s2) \<Rightarrow>
                   processRequest_alt ev req s = (Inr r, cacheResponse req r s2) \<and>
                   invoked (cacheResponse req r s2)
                     = invoked s @ [Ollama, if has_key s ''openai'' then OpenAI else Anthropic]
               | (Inl e2, s2) \<Rightarrow>
                   processRequest_alt ev req s = (Inr (handleError_alt e2 req), s2) \<and>
                   invoked s2 = invoked s @ [Ollama, if has_key s ''openai'' then OpenAI else Anthropic])
         else processRequest_alt ev req s = (Inr (handleError_alt e req), s1) \<and>
              invoked s1 = invoked s @ [Ollama] \<and>
              error (handleError_alt e req) \<noteq> None \<and> suggestions (handleError_alt e req) = []"
proof -
  define s0 where "s0 = await_consume ev (s\<lparr>cache := c\<rparr>)"
  have p0: "provider s0 = ''local''"
    using local by (simp add: s0_def await_consume_frame)
  have i0: "invoked s0 = invoked s" and k0: "apiKeys s0 = apiKeys s"
    by (simp_all add: s0_def await_consume_frame)
  have f1: "invoked s1 = invoked s @ [Ollama]" and k1: "apiKeys s1 = apiKeys s"
    and p1: "provider s1 = ''local''"
    using tryLocalLLM_frame [OF fails [folded s0_def]] i0 k0 p0 by simp_all
  have key: "has_key s1 k = has_key s k" for k
    using k1 by (rule has_key_cong)
  have pr: "processRequest_alt ev req s =
      (case callLocalLLM ev req s0 of
         (Inr r, s2) \<Rightarrow> (Inr r, cacheResponse req r s2)
       | (Inl e, s2) \<Rightarrow> (Inr (handleError_alt e req), s2))"
    using miss p0 by (auto simp: processRequest_alt_def Let_def s0_def)
  have cl: "callLocalLLM ev req s0 =
      (if has_key s ''openai'' \<or> has_key s ''anthropic'' then callCloudLLM ev req s1 else (Inl e, s1))"
    using fails key by (simp add: callLocalLLM_def s0_def)
  show ?thesis
  proof (cases "has_key s ''openai'' \<or> has_key s ''anthropic''")
    case True
    obtain res s2 where g: "callCloudLLM ev req s1 = (res, s2)" by (cases "callCloudLLM ev req s1")
    have "has_key s1 ''openai'' \<or> has_key s1 ''anthropic''" using True key by simp
    from callCloudLLM_fallback [OF g p1 this]
    have i2: "invoked s2 = invoked s @ [Ollama, if has_key s ''openai'' then OpenAI else Anthropic]"
      using f1 key by simp
    show ?thesis
      using True g i2 by (cases res) (simp_all add: pr cl cacheResponse_def)
  next
    case False
    then show ?thesis
      using f1 by (simp add: pr cl handleError_alt_shape)
  qed
qed

text \<open>
  C2. The provider is the local one, the cache has no live entry for the request, and the
  \<^verbatim>\<open>try\<close> block of the local adapter (\<^verbatim>\<open>callLMStudio\<close>; in the service with
  three providers \<^verbatim>\<open>callLocalLLM\<close>) throws \<open>e\<close>. With a key for a cloud provider,
  the fallback (\<^verbatim>\<open>callGemini\<close>; \<^verbatim>\<open>callCloudLLM\<close>, which picks OpenAI or
  Anthropic) is entered once, after the local adapter and as the last adapter of the call,
  and the caller receives its response, which is then cached, or the response made from its
  error; \<open>e\<close> plays no part in it. Without a key no further adapter is entered and the
  caller receives the response made from \<open>e\<close>, with the error set and no suggestions. In
  either case the promise is fulfilled with a response.
\<close>

theorem fallback_one_hop:
  "((provider s = ''local'' \<or> provider s = ''lmstudio'')
      \<and> lru_get (clock s) (generateCacheKey req) (cache s) = (None, c)
      \<and> tryLMStudio ev req (await_consume ev (s\<lparr>cache := c\<rparr>)) = (Inl e, s1)
    \<longrightarrow>
      (if has_key s ''gemini''
       then (case callGemini ev req s1 of
               (Inr r, s2) \<Rightarrow>
                 processRequest ev req s = (Inr r, cacheResponse req r s2) \<and>
                 invoked (cacheResponse req r s2) = invoked s @ [LMStudio, Gemini]
             | (Inl e2, s2) \<Rightarrow>
                 processRequest ev req s = (Inr (handleError e2 req), s2) \<and>
                 invoked s2 = invoked s @ [LMStudio, Gemini])
       else processRequest ev req s = (Inr (handleError e req), s1) \<and>
            invoked s1 = invoked s @ [LMStudio] \<and>
            error (handleError e req) \<noteq> None \<and> suggestions (handleError e req) = []))
   \<and> (provider s = ''local''
      \<and> lru_get (clock s) (generateCacheKey req) (cache s) = (None, c)
      \<and> tryLocalLLM ev req (await_consume ev (s\<lparr>cache := c\<rparr>)) = (Inl e, s1)
    \<longrightarrow>
      (if has_key s ''openai'' \<or> has_key s ''anthropic''
       then (case callCloudLLM ev req s1 of
               (Inr r, s2) \<Rightarrow>
                 processRequest_alt ev req s = (Inr r, cacheResponse req r s2) \<and>
                 invoked (cacheResponse req r s2)
                   = invoked s @ [Ollama, if has_key s ''openai'' then OpenAI else Anthropic]
             | (Inl e2, s2) \<Rightarrow>
                 processRequest_alt ev req s = (Inr (handleError_alt e2 req), s2) \<and>
                 invoked s2 = invoked s @ [Ollama, if has_key s ''openai'' then OpenAI else Anthropic])
       else processRequest_alt ev req s = (Inr (handleError_alt e req), s1) \<and>
            invoked s1 = invoked s @ [Ollama] \<and>
            error (handleError_alt e req) \<noteq> None \<and> suggestions (handleError_alt e req) = []))"
  using fallback_lmstudio [of s req c ev e s1] fallback_ollama [of s req c ev e s1]
  by blast

theorem fallback_one_hop_witness:
  "provider (new_LLMService None (Some ''key'') 0) = ''local''
   \<and> has_key (new_LLMService None (Some ''key'') 0) ''gemini''
   \<and> fst (tryLMStudio cloud_only (grammar_request ''He go'')
        (await_consume cloud_only (new_LLMService None (Some ''key'') 0))) = Inl AxiosRequest
   \<and> fst (processRequest cloud_only (grammar_request ''He go'') (new_LLMService None (Some ''key'') 0))
       = Inr \<lparr>original = ''He go'', suggestions = [], error = None\<rparr>
   \<and> invoked (snd (processRequest cloud_only (grammar_request ''He go'') (new_LLMService None (Some ''key'') 0)))
       = [LMStudio, Gemini]
   \<and> has_key (new_LLMService_alt None None (Some ''key'') 0) ''anthropic''
   \<and> fst (tryLocalLLM cloud_only (grammar_request ''He go'')
        (await_consume cloud_only (new_LLMService_alt None None (Some ''key'') 0))) = Inl AxiosRequest
   \<and> fst (processRequest_alt cloud_only (grammar_request ''He go'') (new_LLMService_alt None None (Some ''key'') 0))
       = Inr \<lparr>original = ''He go'', suggestions = [], error = None\<rparr>
   \<and> invoked (snd (processRequest_alt cloud_only (grammar_request ''He go'') (new_LLMService_alt None None (Some ''key'') 0)))
       = [Ollama, Anthropic]"
proof -
  define s where "s = new_LLMService None (Some ''key'') 0"
  define req where "req = grammar_request ''He go''"
  define r where "r = \<lparr>original = ''He go'', suggestions = [], error = None\<rparr>"
  have h1: "provider s = ''local'' \<or> provider s = ''lmstudio''"
    by (simp add: s_def new_LLMService_def)
  have h2: "lru_get (clock s) (generateCacheKey req) (cache s) = (None, cache s)"
    by (simp add: s_def new_LLMService_def new_LRUCache_def lru_get_def)
  obtain s1 where h3: "tryLMStudio cloud_only req (await_consume cloud_only (s\<lparr>cache := cache s\<rparr>)) = (Inl AxiosRequest, s1)"
    by (simp add: tryLMStudio_def request_provider_def cloud_only_def req_def grammar_request_def)
  have k: "has_key s ''gemini''"
    by (simp add: s_def new_LLMService_def has_key_def)
  have k1: "has_key s1 ''gemini''"
    using tryLMStudio_frame [OF h3] k by (simp add: has_key_def await_consume_frame)
  have g: "fst (callGemini cloud_only req s1) = Inr r"
    using k1
    by (simp add: callGemini_def request_provider_def cloud_only_def req_def grammar_request_def
        has_key_def parseSuggestions_def jsonMatch_def Let_def r_def)
  from fallback_one_hop [of s req "cache s" cloud_only AxiosRequest s1] h1 h2 h3 k g
  have one: "fst (processRequest cloud_only req s) = Inr r
      \<and> invoked (snd (processRequest cloud_only req s)) = invoked s @ [LMStudio, Gemini]"
    by (auto split: prod.splits sum.splits)
  define t where "t = new_LLMService_alt None None (Some ''key'') 0"
  have a1: "provider t = ''local''"
    by (simp add: t_def new_LLMService_alt_def)
  have a2: "lru_get (clock t) (generateCacheKey req) (cache t) = (None, cache t)"
    by (simp add: t_def new_LLMService_alt_def new_LRUCache_def lru_get_def)
  obtain t1 where a3: "tryLocalLLM cloud_only req (await_consume cloud_only (t\<lparr>cache := cache t\<rparr>)) = (Inl AxiosRequest, t1)"
    by (simp add: tryLocalLLM_def request_provider_def cloud_only_def req_def grammar_request_def)
  have ka: "has_key t ''anthropic''" "\<not> has_key t ''openai''"
    by (simp_all add: t_def new_LLMService_alt_def has_key_def)
  have fr: "apiKeys t1 = apiKeys t" "provider t1 = provider t"
    using tryLocalLLM_frame [OF a3] by (simp_all add: await_consume_frame)
  have ka1: "has_key t1 ''anthropic''" "\<not> has_key t1 ''openai''"
    using ka fr by (simp_all add: has_key_def)
  have ga: "fst (callCloudLLM cloud_only req t1) = Inr r"
    using ka1 fr a1
    by (simp add: callCloudLLM_def callAnthropic_def request_provider_def cloud_only_def req_def
        grammar_request_def parseSuggestions_def jsonMatch_def Let_def r_def)
  from fallback_one_hop [of t req "cache t" cloud_only AxiosRequest t1] a1 a2 a3 ka ga
  have two: "fst (processRequest_alt cloud_only req t) = Inr r
      \<and> invoked (snd (processRequest_alt cloud_only req t)) = invoked t @ [Ollama, Anthropic]"
    by (auto split: prod.splits sum.splits)
  have "invoked s = []" "invoked t = []"
    by (simp_all add: s_def t_def new_LLMService_def new_LLMService_alt_def)
  moreover have "fst (tryLMStudio cloud_only req (await_consume cloud_only s)) = Inl AxiosRequest"
    using h3 by simp
  moreover have "fst (tryLocalLLM cloud_only req (await_consume cloud_only t)) = Inl AxiosRequest"
    using a3 by simp
  moreover have "provider s = ''local''" by (simp add: s_def new_LLMService_def)
  ultimately show ?thesis
    using one two k ka unfolding s_def [symmetric] t_def [symmetric] req_def [symmetric] r_def [symmetric]
    by simp
qed

subsection \<open>Properties of the cache\<close>

lemma map_of_without [simp]: "map_of (without k es) k = None"
  by (induction es) (auto simp: without_def)

lemma set_without: "set (without k es) \<subseteq> set es"
  by (auto simp: without_def)

lemma in_without: "x \<in> set (without k es) \<Longrightarrow> x \<in> set es"
  by (simp add: without_def)

lemma lru_get_miss:
  "lru_get now k c = (None, c1) \<Longrightarrow>
     map_of (entries c1) k = None \<and> set (entries c1) \<subseteq> set (entries c) \<and>
     lru_ttl c1 = lru_ttl c \<and> lru_max c1 = lru_max c"
proof -
  assume a: "lru_get now k c = (None, c1)"
  then have "c1 = c \<and> map_of (entries c) k = None \<or> c1 = c\<lparr>entries := without k (entries c)\<rparr>"
    by (auto simp: lru_get_def split: option.splits if_splits)
  then show ?thesis
    using set_without [of k "entries c"] by auto
qed

lemma lru_get_hit:
  "lru_get now k c = (Some v, c1) \<Longrightarrow>
     (\<exists>t. map_of (entries c) k = Some (v, t) \<and> entries c1 = (k, v, t) # without k (entries c)) \<and>
     lru_ttl c1 = lru_ttl c \<and> lru_max c1 = lru_max c"
  by (auto simp: lru_get_def split: option.splits if_splits)

lemma lru_get_fresh:
  "lru_fresh now k c \<Longrightarrow> \<exists>v t c1. map_of (entries c) k = Some (v, t) \<and> lru_get now k c = (Some v, c1)"
  by (auto simp: lru_fresh_def lru_get_def split: option.splits)

lemma lru_set_entries:
  "map_of (entries (lru_set now k v c)) k = Some (v, now)"
  "set (entries (lru_set now k v c)) \<subseteq> insert (k, v, now) (set (entries c))"
  "lru_ttl (lru_set now k v c) = lru_ttl c"
  by (auto simp: lru_set_def split: option.splits dest: in_set_butlastD in_without)

lemma map_of_in_set: "map_of es k = Some x \<Longrightarrow> (k, x) \<in> set es"
  by (rule map_of_SomeD)

lemma error_free_mono:
  "error_free c \<Longrightarrow> set (entries c1) \<subseteq> set (entries c) \<Longrightarrow> error_free c1"
  by (auto simp: error_free_def)

lemma error_free_hit:
  assumes "error_free c" and "lru_get now k c = (Some v, c1)"
  shows "error v = None" and "error_free c1"
proof -
  obtain t where m: "map_of (entries c) k = Some (v, t)"
    and e: "entries c1 = (k, v, t) # without k (entries c)"
    using lru_get_hit [OF assms(2)] by blast
  have "(k, v, t) \<in> set (entries c)" using m by (rule map_of_SomeD)
  then show "error v = None" using assms(1) by (auto simp: error_free_def)
  then show "error_free c1"
    using assms(1) e by (auto simp: error_free_def dest: in_without)
qed

lemma error_free_set:
  "error_free c \<Longrightarrow> error v = None \<Longrightarrow> error_free (lru_set now k v c)"
  using lru_set_entries(2) [of now k v c] by (fastforce simp: error_free_def)

text \<open>
  The four ways through \<^verbatim>\<open>processRequest\<close>: a hit, or a miss followed by the
  success or the failure of the adapters.
\<close>

lemma processRequest_cases:
  assumes "processRequest ev req s = (res, s1)"
  obtains
    (hit) r c where "lru_get (clock s) (generateCacheKey req) (cache s) = (Some r, c)"
      "res = Inr r" "s1 = s\<lparr>cache := c\<rparr>"
  | (success) c r s2 where "lru_get (clock s) (generateCacheKey req) (cache s) = (None, c)"
      "cache s2 = c" "error r = None" "res = Inr r" "s1 = cacheResponse req r s2"
      "\<exists>as. as \<noteq> [] \<and> invoked s2 = invoked s @ as"
  | (failure) c e where "lru_get (clock s) (generateCacheKey req) (cache s) = (None, c)"
      "cache s1 = c" "res = Inr (handleError e req)"
      "\<exists>as. as \<noteq> [] \<and> invoked s1 = invoked s @ as"
proof -
  obtain hit c where g: "lru_get (clock s) (generateCacheKey req) (cache s) = (hit, c)"
    by (cases "lru_get (clock s) (generateCacheKey req) (cache s)")
  show thesis
  proof (cases hit)
    case (Some r)
    then show thesis using assms g hit by (auto simp: processRequest_def)
  next
    case None
    define s0 where "s0 = await_consume ev (s\<lparr>cache := c\<rparr>)"
    have c0: "cache s0 = c" and i0: "invoked s0 = invoked s"
      by (simp_all add: s0_def await_consume_frame)
    define call where "call = (if provider s0 = ''local'' \<or> provider s0 = ''lmstudio''
                 then callLMStudio ev req s0 else callGemini ev req s0)"
    obtain out s2 where o: "call = (out, s2)" by (cases call)
    have fr: "cache s2 = c \<and> (\<exists>as. as \<noteq> [] \<and> invoked s2 = invoked s @ as)"
    proof (cases "provider s0 = ''local'' \<or> provider s0 = ''lmstudio''")
      case True
      then have "callLMStudio ev req s0 = (out, s2)" using o by (simp add: call_def)
      from callLMStudio_frame [OF this] show ?thesis using c0 i0 by auto
    next
      case False
      then have "callGemini ev req s0 = (out, s2)" using o by (simp add: call_def)
      from callGemini_frame [OF this] show ?thesis using c0 i0 by auto
    qed
    have ne: "\<And>r. out = Inr r \<Longrightarrow> error r = None"
      using o callLMStudio_no_error callGemini_no_error
      by (auto simp: call_def split: if_splits)
    have "processRequest ev req s =
       (case call of (Inr r, s2) \<Rightarrow> (Inr r, cacheResponse req r s2)
                   | (Inl e, s2) \<Rightarrow> (Inr (handleError e req), s2))"
      using g None by (simp add: processRequest_def Let_def s0_def call_def)
    then have pr: "processRequest ev req s =
       (case out of Inr r \<Rightarrow> (Inr r, cacheResponse req r s2)
                  | Inl e \<Rightarrow> (Inr (handleError e req), s2))"
      by (simp add: o split: sum.splits)
    show thesis
    proof (cases out)
      case (Inl e)
      then show thesis using failure [of c e] g None pr assms fr by simp
    next
      case (Inr r)
      then show thesis using success [of c s2 r] g None pr assms fr ne by simp
    qed
  qed
qed

subsection \<open>Repeated requests\<close>

lemma cacheResponse_fields [simp]:
  "invoked (cacheResponse req r s) = invoked s"
  "posts (cacheResponse req r s) = posts s"
  "rateLimiter (cacheResponse req r s) = rateLimiter s"
  "clock (cacheResponse req r s) = clock s"
  "cache (cacheResponse req r s) = lru_set (clock s) (generateCacheKey req) r (cache s)"
  by (simp_all add: cacheResponse_def)

text \<open>After a call, the cache holds nothing under the key of the request or the response
  that the call returned.\<close>

lemma processRequest_cached_value:
  assumes "processRequest ev req s = (Inr r, s1)"
  shows "map_of (entries (cache s1)) (generateCacheKey req) = None \<or>
         (\<exists>t. map_of (entries (cache s1)) (generateCacheKey req) = Some (r, t))"
  using assms
proof (cases rule: processRequest_cases)
  case (hit r' c)
  then show ?thesis using lru_get_hit [OF hit(1)] by auto
next
  case (success c r' s2)
  then show ?thesis by (simp add: lru_set_entries(1))
next
  case (failure c e)
  then show ?thesis using lru_get_miss [OF failure(1)] by auto
qed

text \<open>A call that hits the cache: the response held there, and nothing else happens.\<close>

lemma processRequest_hit:
  assumes "lru_fresh (clock s) (generateCacheKey req) (cache s)"
    and "map_of (entries (cache s)) (generateCacheKey req) = Some (r, t)"
  shows "fst (processRequest ev req s) = Inr r"
    and "invoked (snd (processRequest ev req s)) = invoked s"
    and "posts (snd (processRequest ev req s)) = posts s"
    and "rateLimiter (snd (processRequest ev req s)) = rateLimiter s"
proof -
  obtain c1 where "lru_get (clock s) (generateCacheKey req) (cache s) = (Some r, c1)"
    using lru_get_fresh [OF assms(1)] assms(2) by auto
  then have "processRequest ev req s = (Inr r, s\<lparr>cache := c1\<rparr>)"
    by (simp add: processRequest_def)
  then show "fst (processRequest ev req s) = Inr r"
    and "invoked (snd (processRequest ev req s)) = invoked s"
    and "posts (snd (processRequest ev req s)) = posts s"
    and "rateLimiter (snd (processRequest ev req s)) = rateLimiter s"
    by simp_all
qed

text \<open>
  A first call that fails caches nothing: with no provider in reach, the second call takes a
  second token and enters the adapter again.
\<close>

lemma second_call_after_failure:
  "tokens (rateLimiter (snd (processRequest unreachable (grammar_request ''He go'')
       (new_LLMService None None 0)))) = 9
   \<and> invoked (snd (processRequest unreachable (grammar_request ''He go'')
       (new_LLMService None None 0))) = [LMStudio]
   \<and> tokens (rateLimiter (snd (processRequest unreachable (grammar_request ''He go'')
       (snd (processRequest unreachable (grammar_request ''He go'') (new_LLMService None None 0)))))) = 201 / 25
   \<and> invoked (snd (processRequest unreachable (grammar_request ''He go'')
       (snd (processRequest unreachable (grammar_request ''He go'') (new_LLMService None None 0)))))
       = [LMStudio, LMStudio]"
  by (simp add: processRequest_def new_LLMService_def new_LRUCache_def new_RateLimiter_def lru_get_def
      generateCacheKey_def grammar_request_def await_consume_def consume_begin_def refill_def
      callLMStudio_def tryLMStudio_def request_provider_def unreachable_def has_key_def Let_def)

text \<open>
  When the first call went to a provider and succeeded, the entry is live for the time to
  live, counted from the end of that call.
\<close>

lemma fresh_after_success:
  assumes "lru_get (clock s) (generateCacheKey req) (cache s) = (None, c)"
    and "processRequest ev req s = (Inr r, s1)" and "error r = None"
  shows "lru_fresh now2 (generateCacheKey req) (cache s1) \<longleftrightarrow> now2 - clock s1 \<le> lru_ttl (cache s)"
  using assms(2)
proof (cases rule: processRequest_cases)
  case (hit r' c')
  then show ?thesis using assms(1) by simp
next
  case (success c' r' s2)
  have "c' = c" using success(1) assms(1) by simp
  then have "lru_ttl (cache s2) = lru_ttl (cache s)"
    using lru_get_miss [OF assms(1)] success(2) by simp
  then show ?thesis
    using success lru_set_entries(1) [of "clock s2" "generateCacheKey req" r "cache s2"]
    by (auto simp: lru_fresh_def lru_set_entries(3))
next
  case (failure c' e)
  then show ?thesis using assms(3) by (simp add: handleError_shape)
qed

lemma second_call_hit:
  assumes first: "processRequest ev req s = (Inr r, s1)"
    and fresh: "lru_fresh now2 (generateCacheKey req) (cache s1)"
  shows "fst (processRequest ev2 req (s1\<lparr>clock := now2\<rparr>)) = Inr r
       \<and> invoked (snd (processRequest ev2 req (s1\<lparr>clock := now2\<rparr>))) = invoked s1
       \<and> posts (snd (processRequest ev2 req (s1\<lparr>clock := now2\<rparr>))) = posts s1
       \<and> rateLimiter (snd (processRequest ev2 req (s1\<lparr>clock := now2\<rparr>))) = rateLimiter s1"
proof -
  obtain v t where m: "map_of (entries (cache s1)) (generateCacheKey req) = Some (v, t)"
    using lru_get_fresh [OF fresh] by blast
  then have m2: "map_of (entries (cache s1)) (generateCacheKey req) = Some (r, t)"
    using processRequest_cached_value [OF first] by auto
  have f2: "lru_fresh (clock (s1\<lparr>clock := now2\<rparr>)) (generateCacheKey req) (cache (s1\<lparr>clock := now2\<rparr>))"
    using fresh by simp
  have m3: "map_of (entries (cache (s1\<lparr>clock := now2\<rparr>))) (generateCacheKey req) = Some (r, t)"
    using m2 by simp
  show ?thesis
    using processRequest_hit [OF f2 m3, of ev2] by simp
qed

text \<open>
  C3. The first call has returned \<open>r\<close>, and the second call, with the same request, is
  made at the time \<open>now2\<close> in any surroundings \<open>ev2\<close>. When the cache then holds a live
  entry for the request, the response cached by the first call, the second call returns
  \<open>r\<close>, enters no adapter, sends nothing and leaves the bucket as it was. That is so in
  particular when the first call went to a provider, got a response without error, and the
  second call comes within the time to live of the cache (one hour) after the end of the
  first.
\<close>

theorem second_call_served_from_cache:
  assumes first: "processRequest ev req s = (Inr r, s1)"
  shows "(lru_fresh now2 (generateCacheKey req) (cache s1)
           \<longrightarrow> fst (processRequest ev2 req (s1\<lparr>clock := now2\<rparr>)) = Inr r
             \<and> invoked (snd (processRequest ev2 req (s1\<lparr>clock := now2\<rparr>))) = invoked s1
             \<and> posts (snd (processRequest ev2 req (s1\<lparr>clock := now2\<rparr>))) = posts s1
             \<and> rateLimiter (snd (processRequest ev2 req (s1\<lparr>clock := now2\<rparr>))) = rateLimiter s1)
       \<and> (lru_get (clock s) (generateCacheKey req) (cache s) = (None, c) \<and> error r = None
            \<and> now2 - clock s1 \<le> lru_ttl (cache s)
           \<longrightarrow> fst (processRequest ev2 req (s1\<lparr>clock := now2\<rparr>)) = Inr r
             \<and> invoked (snd (processRequest ev2 req (s1\<lparr>clock := now2\<rparr>))) = invoked s1
             \<and> posts (snd (processRequest ev2 req (s1\<lparr>clock := now2\<rparr>))) = posts s1
             \<and> rateLimiter (snd (processRequest ev2 req (s1\<lparr>clock := now2\<rparr>))) = rateLimiter s1)"
proof -
  have hit: "lru_fresh now2 (generateCacheKey req) (cache s1)
           \<longrightarrow> fst (processRequest ev2 req (s1\<lparr>clock := now2\<rparr>)) = Inr r
             \<and> invoked (snd (processRequest ev2 req (s1\<lparr>clock := now2\<rparr>))) = invoked s1
             \<and> posts (snd (processRequest ev2 req (s1\<lparr>clock := now2\<rparr>))) = posts s1
             \<and> rateLimiter (snd (processRequest ev2 req (s1\<lparr>clock := now2\<rparr>))) = rateLimiter s1"
    using second_call_hit [OF first, of now2 ev2] by blast
  have "lru_get (clock s) (generateCacheKey req) (cache s) = (None, c) \<and> error r = None
            \<and> now2 - clock s1 \<le> lru_ttl (cache s)
          \<longrightarrow> lru_fresh now2 (generateCacheKey req) (cache s1)"
    using fresh_after_success [of s req c ev r s1 now2] first by simp
  then show ?thesis using hit by blast
qed

theorem second_call_served_from_cache_witness:
  "fst (processRequest (local_reply ''ok: []'') (grammar_request ''He go'') (new_LLMService None None 0))
     = Inr \<lparr>original = ''He go'', suggestions = [], error = None\<rparr>
   \<and> clock (snd (processRequest (local_reply ''ok: []'') (grammar_request ''He go'') (new_LLMService None None 0))) = 50
   \<and> lru_fresh 60000 (generateCacheKey (grammar_request ''He go''))
       (cache (snd (processRequest (local_reply ''ok: []'') (grammar_request ''He go'') (new_LLMService None None 0))))
   \<and> fst (processRequest unreachable (grammar_request ''He go'')
       ((snd (processRequest (local_reply ''ok: []'') (grammar_request ''He go'') (new_LLMService None None 0)))\<lparr>clock := 60000\<rparr>))
     = Inr \<lparr>original = ''He go'', suggestions = [], error = None\<rparr>
   \<and> invoked (snd (processRequest unreachable (grammar_request ''He go'')
       ((snd (processRequest (local_reply ''ok: []'') (grammar_request ''He go'') (new_LLMService None None 0)))\<lparr>clock := 60000\<rparr>)))
     = [LMStudio]
   \<and> tokens (rateLimiter (snd (processRequest unreachable (grammar_request ''He go'')
       ((snd (processRequest (local_reply ''ok: []'') (grammar_request ''He go'') (new_LLMService None None 0)))\<lparr>clock := 60000\<rparr>))))
     = 9"
proof -
  define s where "s = new_LLMService None None 0"
  define req where "req = grammar_request ''He go''"
  define r where "r = \<lparr>original = ''He go'', suggestions = [], error = None\<rparr>"
  define s1 where "s1 = snd (processRequest (local_reply ''ok: []'') req s)"
  have ev: "fst (processRequest (local_reply ''ok: []'') req s) = Inr r"
    "invoked s1 = [LMStudio]" "clock s1 = 50" "tokens (rateLimiter s1) = 9"
    unfolding s1_def
    by (simp_all add: processRequest_def new_LLMService_def new_LRUCache_def new_RateLimiter_def
        lru_get_def lru_set_def cacheResponse_def
        generateCacheKey_def grammar_request_def await_consume_def consume_begin_def refill_def
        callLMStudio_def tryLMStudio_def request_provider_def local_reply_def has_key_def Let_def
        parseSuggestions_def jsonMatch_def s_def req_def r_def)
  have first: "processRequest (local_reply ''ok: []'') req s = (Inr r, s1)"
    using ev(1) by (simp add: s1_def prod_eq_iff)
  have miss: "lru_get (clock s) (generateCacheKey req) (cache s) = (None, cache s)"
    by (simp add: s_def new_LLMService_def new_LRUCache_def lru_get_def)
  have ok: "error r = None" by (simp add: r_def)
  have ttl: "60000 - clock s1 \<le> lru_ttl (cache s)"
    by (simp add: ev(3) s_def new_LLMService_def new_LRUCache_def)
  have fresh: "lru_fresh 60000 (generateCacheKey req) (cache s1)"
    using fresh_after_success [OF miss first ok, of 60000] ttl by simp
  from second_call_served_from_cache [OF first, of 60000 unreachable "cache s"] miss ok ttl ev fresh
  show ?thesis
    unfolding s_def req_def r_def s1_def by simp
qed

subsection \<open>What the caches hold\<close>

text \<open>An error reported by the service is never the empty string.\<close>

lemma service_error_not_empty:
  assumes "error_free (cache s)" and "processRequest ev req s = (Inr r, s1)"
  shows "error r \<noteq> Some []"
  using assms(2)
proof (cases rule: processRequest_cases)
  case (hit r' c)
  then show ?thesis using error_free_hit(1) [OF assms(1) hit(1)] by simp
next
  case (success c r' s2)
  then show ?thesis by simp
next
  case (failure c e)
  then show ?thesis by (simp add: handleError_shape)
qed

lemma checkGrammar_error_not_empty:
  assumes "error_free (cache s)" and "checkGrammar ev txt lang s = (Inr r, s1)"
  shows "error r \<noteq> Some []"
proof (cases "txt = []")
  case True
  then show ?thesis
    using assms(2) by (auto simp: checkGrammar_def Let_def handleError_shape)
next
  case False
  define req where "req = \<lparr>req_text = txt, operation = ''grammar-check'', style = None,
      language = Some (case lang of None \<Rightarrow> ''en'' | Some l \<Rightarrow> l)\<rparr>"
  obtain r' s' where p: "processRequest ev req s = (Inr r', s')"
    using processRequest_fulfils [of ev req s] by (cases "processRequest ev req s") auto
  then have "r = r'"
    using assms(2) False by (simp add: checkGrammar_def Let_def req_def)
  then show ?thesis
    using service_error_not_empty [OF assms(1) p] by simp
qed

text \<open>The function handed to the debouncer writes a reply only if it passes the test
  \<^verbatim>\<open>!response.error\<close>, and then under the key of the task.\<close>

lemma run_task_no_write:
  assumes "run_task rv now t pr = (Inr (Some reply), pr1)" and "\<not> no_error reply"
  shows "response_cache pr1 = response_cache pr"
  using assms by (auto simp: run_task_def Let_def split: if_splits option.splits sum.splits)

lemma run_task_write:
  assumes "run_task rv now t pr = (out, pr1)" and "onLine rv now"
    and "ipc_invoke rv (task_channel t) t (length (ipc_log pr)) = Inr (Some reply)" and "no_error reply"
  shows "out = Inr (Some reply)"
    and "response_cache pr1 = lru_set now (task_cacheKey t) reply (response_cache pr)"
  using assms by (auto simp: run_task_def Let_def split: if_splits option.splits sum.splits)

text \<open>When the bridge throws, the function throws the same, the call is in the log of the
  bridge and the cache is as it was; the timer then rejects the promise.\<close>

lemma run_task_throws:
  assumes "onLine rv now"
    and "ipc_invoke rv (task_channel t) t (length (ipc_log pr)) = Inl e"
  shows "run_task rv now t pr = (Inl e, pr\<lparr>ipc_log := ipc_log pr @ [(task_channel t, t)]\<rparr>)"
  using assms by (simp add: run_task_def Let_def)

lemma run_task_thrown_no_write:
  assumes "run_task rv now t pr = (Inl e, pr1)"
  shows "response_cache pr1 = response_cache pr"
  using assms by (auto simp: run_task_def Let_def split: if_splits option.splits sum.splits)

lemma LLMProcessor_timer_rejects:
  assumes "timeout (requestDebouncer pr) = Some (p, t, due)" and "due \<le> now"
    and "onLine rv now"
    and "ipc_invoke rv (task_channel t) t (length (ipc_log pr)) = Inl e"
  shows "p_settled (LLMProcessor_timer rv now pr) = p_settled pr @ [(p, Inl e)]"
    and "response_cache (LLMProcessor_timer rv now pr) = response_cache pr"
  using assms by (simp_all add: LLMProcessor_timer_def timer_fires_def run_task_def Let_def)

text \<open>A grammar check of a new processor, on line, whose call of the bridge throws
  \<open>e\<close>: the promise is rejected with \<open>e\<close>, the bridge was called once and the
  cache is empty.\<close>

lemma grammar_check_rejected:
  "p_settled (LLMProcessor_timer (on_line_throwing e) 500
      (LLMProcessor_checkGrammar 0 1 ''He go'' None new_LLMProcessor)) = [(1, Inl e)]
   \<and> ipc_log (LLMProcessor_timer (on_line_throwing e) 500
      (LLMProcessor_checkGrammar 0 1 ''He go'' None new_LLMProcessor))
       = [(''ai:check-grammar'', GrammarTask ''He go'' None)]
   \<and> entries (response_cache (LLMProcessor_timer (on_line_throwing e) 500
      (LLMProcessor_checkGrammar 0 1 ''He go'' None new_LLMProcessor))) = []"
  by (simp add: LLMProcessor_timer_def LLMProcessor_checkGrammar_def LLMProcessor_call_def
      new_LLMProcessor_def new_LRUCache_def new_Debouncer_def lru_get_def timer_fires_def
      run_task_def on_line_throwing_def Let_def debounce_def split: prod.splits)

text \<open>
  C7, for the service: starting from a cache that holds no response with an error, a call of
  \<^verbatim>\<open>processRequest\<close> ends with such a cache; and when it returns a response with an
  error, it has written nothing (every entry was there before), the cache has no entry for
  the request, and the same request, made again at any time and in any surroundings, enters
  an adapter anew. For the processor of the renderer: a reply with an error, the empty
  string apart, leaves its cache as it was.
\<close>

theorem errors_are_not_cached:
  assumes clean: "error_free (cache s)"
    and call: "processRequest ev req s = (Inr r, s1)"
  shows "error_free (cache s1)
       \<and> (error r \<noteq> None \<longrightarrow>
            set (entries (cache s1)) \<subseteq> set (entries (cache s))
          \<and> map_of (entries (cache s1)) (generateCacheKey req) = None
          \<and> strict_prefix (invoked s1) (invoked (snd (processRequest ev2 req (s1\<lparr>clock := now2\<rparr>)))))
       \<and> (run_task rv now t pr = (Inr (Some reply), pr1) \<and> error reply \<noteq> None \<and> error reply \<noteq> Some []
            \<longrightarrow> response_cache pr1 = response_cache pr)"
proof -
  have renderer: "run_task rv now t pr = (Inr (Some reply), pr1) \<and> error reply \<noteq> None \<and> error reply \<noteq> Some []
            \<longrightarrow> response_cache pr1 = response_cache pr"
    using run_task_no_write [of rv now t pr reply pr1]
    by (auto simp: no_error_def split: option.splits)
  from call have service: "error_free (cache s1)
       \<and> (error r \<noteq> None \<longrightarrow>
            set (entries (cache s1)) \<subseteq> set (entries (cache s))
          \<and> map_of (entries (cache s1)) (generateCacheKey req) = None
          \<and> strict_prefix (invoked s1) (invoked (snd (processRequest ev2 req (s1\<lparr>clock := now2\<rparr>)))))"
  proof (cases rule: processRequest_cases)
    case (hit r' c)
    then show ?thesis
      using error_free_hit [OF clean hit(1)] by simp
  next
    case (success c r' s2)
    have "error_free c"
      using lru_get_miss [OF success(1)] clean by (blast intro: error_free_mono)
    then have "error_free (cache s1)"
      using success by (simp add: error_free_set)
    then show ?thesis using success by simp
  next
    case (failure c e)
    have sub: "set (entries (cache s1)) \<subseteq> set (entries (cache s))"
      and none: "map_of (entries (cache s1)) (generateCacheKey req) = None"
      using lru_get_miss [OF failure(1)] failure(2) by simp_all
    have ef: "error_free (cache s1)"
      using clean sub by (rule error_free_mono)
    define s' where "s' = s1\<lparr>clock := now2\<rparr>"
    obtain res2 s2 where again: "processRequest ev2 req s' = (res2, s2)"
      by (cases "processRequest ev2 req s'")
    have nohit: "\<And>v c. lru_get (clock s') (generateCacheKey req) (cache s') \<noteq> (Some v, c)"
      using none by (auto simp: s'_def lru_get_def)
    from again have "\<exists>as. as \<noteq> [] \<and> invoked s2 = invoked s' @ as"
    proof (cases rule: processRequest_cases)
      case (hit r' c')
      then show ?thesis using nohit by simp
    next
      case (success c' r' s3)
      then show ?thesis by simp
    next
      case (failure c' e')
      then show ?thesis by simp
    qed
    then have "strict_prefix (invoked s1) (invoked s2)"
      by (auto simp: s'_def strict_prefix_def prefix_def)
    then show ?thesis
      using ef sub none again by (simp add: s'_def)
  qed
  show ?thesis using service renderer by blast
qed

theorem errors_are_not_cached_witness:
  "error_free (cache (new_LLMService None None 0))
   \<and> fst (processRequest unreachable (grammar_request ''He go'') (new_LLMService None None 0))
       = Inr \<lparr>original = ''He go'', suggestions = [],
              error = Some ''ERR_NETWORK: No response received from LLM service''\<rparr>
   \<and> entries (cache (snd (processRequest unreachable (grammar_request ''He go'') (new_LLMService None None 0)))) = []
   \<and> strict_prefix [LMStudio]
       (invoked (snd (processRequest (local_reply ''ok: []'') (grammar_request ''He go'')
          ((snd (processRequest unreachable (grammar_request ''He go'') (new_LLMService None None 0)))\<lparr>clock := 5000\<rparr>))))
   \<and> response_cache (snd (run_task
         (on_line (Some \<lparr>original = ''He go'', suggestions = [],
              error = Some ''ERR_NETWORK: No response received from LLM service''\<rparr>))
         700 (GrammarTask ''He go'' None) new_LLMProcessor)) = response_cache new_LLMProcessor"
proof -
  define s where "s = new_LLMService None None 0"
  define req where "req = grammar_request ''He go''"
  define r where "r = \<lparr>original = ''He go'', suggestions = [],
              error = Some ''ERR_NETWORK: No response received from LLM service''\<rparr>"
  define s1 where "s1 = snd (processRequest unreachable req s)"
  define pr1 where "pr1 = snd (run_task (on_line (Some r)) 700 (GrammarTask ''He go'' None) new_LLMProcessor)"
  have clean: "error_free (cache s)"
    by (simp add: s_def new_LLMService_def new_LRUCache_def error_free_def)
  have ev: "fst (processRequest unreachable req s) = Inr r" "invoked s1 = [LMStudio]"
    unfolding s1_def
    by (simp_all add: processRequest_def new_LLMService_def new_LRUCache_def new_RateLimiter_def
        lru_get_def generateCacheKey_def grammar_request_def await_consume_def consume_begin_def
        refill_def callLMStudio_def tryLMStudio_def request_provider_def unreachable_def has_key_def
        Let_def handleError_def classify_def NETWORK_ERROR_def s_def req_def r_def)
  have call: "processRequest unreachable req s = (Inr r, s1)"
    using ev(1) by (simp add: s1_def prod_eq_iff)
  have task: "run_task (on_line (Some r)) 700 (GrammarTask ''He go'' None) new_LLMProcessor = (Inr (Some r), pr1)"
    by (simp add: pr1_def run_task_def on_line_def Let_def)
  have err: "error r \<noteq> None" "error r \<noteq> Some []" by (simp_all add: r_def)
  have empty: "entries (cache s) = []"
    by (simp add: s_def new_LLMService_def new_LRUCache_def)
  from errors_are_not_cached [OF clean call, of "local_reply ''ok: []''" 5000
      "on_line (Some r)" 700 "GrammarTask ''He go'' None" new_LLMProcessor r pr1]
    task err empty ev clean
  show ?thesis
    unfolding s_def req_def r_def s1_def pr1_def by simp
qed

subsection \<open>From the parsed array to the suggestions\<close>

lemma formatSuggestion_object:
  "formatSuggestion (JObj kvs) =
     Inr \<lparr>s_text = (case map_of kvs ''text'' of None \<Rightarrow> JUndefined | Some v \<Rightarrow> v),
          s_confidence = js_or (case map_of kvs ''confidence'' of None \<Rightarrow> JUndefined | Some v \<Rightarrow> v) (JNum 0.8),
          s_type = js_or (case map_of kvs ''type'' of None \<Rightarrow> JUndefined | Some v \<Rightarrow> v) (JStr ''unknown'')\<rparr>"
  by (simp add: formatSuggestion_def)

text \<open>The suggestions come in the order of the array, one for each element.\<close>

lemma formatSuggestions_in_order:
  "formatSuggestions vs = Inr ss \<Longrightarrow> map formatSuggestion vs = map Inr ss"
  by (induction vs arbitrary: ss) (auto split: sum.splits)

text \<open>A value that the provider leaves out is replaced by the default; a truthy value
  that it supplies is kept.\<close>

lemma confidence_omitted:
  "map_of kvs ''confidence'' = None \<Longrightarrow>
     map_sum id s_confidence (formatSuggestion (JObj kvs)) = Inr (JNum 0.8)"
  by (simp add: formatSuggestion_object js_or_def)

lemma confidence_truthy:
  "map_of kvs ''confidence'' = Some v \<Longrightarrow> truthy v \<Longrightarrow>
     map_sum id s_confidence (formatSuggestion (JObj kvs)) = Inr v"
  by (simp add: formatSuggestion_object js_or_def)

lemma type_omitted:
  "map_of kvs ''type'' = None \<Longrightarrow>
     map_sum id s_type (formatSuggestion (JObj kvs)) = Inr (JStr ''unknown'')"
  by (simp add: formatSuggestion_object js_or_def)

lemma type_truthy:
  "map_of kvs ''type'' = Some v \<Longrightarrow> truthy v \<Longrightarrow>
     map_sum id s_type (formatSuggestion (JObj kvs)) = Inr v"
  by (simp add: formatSuggestion_object js_or_def)

text \<open>
  C5 claims that a confidence supplied by the provider is kept, 0 included, and that the
  default 0.8 is used only when the provider leaves the confidence out; likewise for the
  type. The array parsed from
  \<^verbatim>\<open>[{"text":"a","confidence":0,"type":"grammar"},{"text":"b","confidence":0.5,"type":""}]\<close>
  yields the confidence 0.8 for the first element and the type \<^verbatim>\<open>unknown\<close> for the
  second, though both values were supplied.
\<close>

theorem supplied_zero_confidence_replaced:
  "formatSuggestions
     [JObj [(''text'', JStr ''a''), (''confidence'', JNum 0), (''type'', JStr ''grammar'')],
      JObj [(''text'', JStr ''b''), (''confidence'', JNum 0.5), (''type'', JStr '''')]]
   = Inr [\<lparr>s_text = JStr ''a'', s_confidence = JNum 0.8, s_type = JStr ''grammar''\<rparr>,
          \<lparr>s_text = JStr ''b'', s_confidence = JNum 0.5, s_type = JStr ''unknown''\<rparr>]"
  by (simp add: formatSuggestion_def js_or_def)

subsection \<open>Replies of the provider\<close>

text \<open>The local provider is asked and answers with the text \<open>payload\<close>.\<close>

lemma tryLMStudio_reply:
  assumes op: "operation req = ''grammar-check'' \<or> operation req = ''rephrase''"
    and net: "post ev LMStudio req (length (posts s)) = (latency, Inr payload)"
  shows "fst (tryLMStudio ev req s) =
     (case parseSuggestions ev ''LM Studio'' payload of
        Inl e \<Rightarrow> Inl e
      | Inr ss \<Rightarrow> Inr \<lparr>original = req_text req, suggestions = ss, error = None\<rparr>)"
  using op net by (auto simp: tryLMStudio_def request_provider_def Let_def split: sum.splits)

lemma processRequest_local_reply:
  assumes local: "provider s = ''local'' \<or> provider s = ''lmstudio''"
    and miss: "lru_get (clock s) (generateCacheKey req) (cache s) = (None, c)"
    and op: "operation req = ''grammar-check'' \<or> operation req = ''rephrase''"
    and net: "post ev LMStudio req (length (posts s)) = (latency, Inr payload)"
  shows "parseSuggestions ev ''LM Studio'' payload = Inr ss \<Longrightarrow>
           fst (processRequest ev req s) = Inr \<lparr>original = req_text req, suggestions = ss, error = None\<rparr>"
    and "parseSuggestions ev ''LM Studio'' payload = Inl e \<Longrightarrow> \<not> has_key s ''gemini'' \<Longrightarrow>
           fst (processRequest ev req s) = Inr (handleError e req)"
proof -
  define s0 where "s0 = await_consume ev (s\<lparr>cache := c\<rparr>)"
  have p0: "provider s0 = ''local'' \<or> provider s0 = ''lmstudio''"
    using local by (simp add: s0_def await_consume_frame)
  have net0: "post ev LMStudio req (length (posts s0)) = (latency, Inr payload)"
    using net by (simp add: s0_def await_consume_frame)
  have k0: "has_key s0 ''gemini'' = has_key s ''gemini''"
    by (simp add: s0_def has_key_def await_consume_frame)
  obtain out s1 where t: "tryLMStudio ev req s0 = (out, s1)" by (cases "tryLMStudio ev req s0")
  have out: "out = (case parseSuggestions ev ''LM Studio'' payload of
        Inl e \<Rightarrow> Inl e
      | Inr ss \<Rightarrow> Inr \<lparr>original = req_text req, suggestions = ss, error = None\<rparr>)"
    using tryLMStudio_reply [OF op net0] t by simp
  have k1: "has_key s1 ''gemini'' = has_key s ''gemini''"
    using tryLMStudio_frame [OF t] k0 by (simp add: has_key_def)
  have pr: "processRequest ev req s =
      (case callLMStudio ev req s0 of
         (Inr r, s2) \<Rightarrow> (Inr r, cacheResponse req r s2)
       | (Inl e, s2) \<Rightarrow> (Inr (handleError e req), s2))"
    using miss p0 by (auto simp: processRequest_def Let_def s0_def)
  show "parseSuggestions ev ''LM Studio'' payload = Inr ss \<Longrightarrow>
           fst (processRequest ev req s) = Inr \<lparr>original = req_text req, suggestions = ss, error = None\<rparr>"
    using t out by (simp add: pr callLMStudio_def)
  show "parseSuggestions ev ''LM Studio'' payload = Inl e \<Longrightarrow> \<not> has_key s ''gemini'' \<Longrightarrow>
           fst (processRequest ev req s) = Inr (handleError e req)"
    using t out k1 by (simp add: pr callLMStudio_def)
qed

text \<open>
  C8 claims that parsing finds the first well-formed array in the reply and that a reply
  without an array gives a response classified as a parse error. The reply
  \<^verbatim>\<open>See [note 1]: []\<close> contains the array \<^verbatim>\<open>[]\<close>, but what is handed to
  \<^verbatim>\<open>JSON.parse\<close> is \<^verbatim>\<open>[note 1]: []\<close>, and the request fails with the code
  \<^verbatim>\<open>ERR_UNKNOWN\<close>. For the reply \<^verbatim>\<open>No corrections needed.\<close> the response
  carries the code \<^verbatim>\<open>ERR_UNKNOWN\<close> as well, not \<^verbatim>\<open>ERR_LLM_PARSE\<close>.
\<close>

theorem first_array_not_found:
  "jsonMatch ''See [note 1]: []'' = Some ''[note 1]: []''
   \<and> map_sum id suggestions (fst (processRequest (local_reply ''See [note 1]: []'')
        (grammar_request ''He go'') (new_LLMService None None 0))) = Inr []
   \<and> map_sum id (map_option (take 12) \<circ> error) (fst (processRequest (local_reply ''See [note 1]: []'')
        (grammar_request ''He go'') (new_LLMService None None 0))) = Inr (Some ''ERR_UNKNOWN:'')
   \<and> fst (processRequest (local_reply ''No corrections needed.'') (grammar_request ''He go'')
        (new_LLMService None None 0))
       = Inr \<lparr>original = ''He go'', suggestions = [],
              error = Some ''ERR_UNKNOWN: Failed to parse LM Studio response''\<rparr>"
  by (simp add: processRequest_def new_LLMService_def new_LRUCache_def new_RateLimiter_def
        lru_get_def generateCacheKey_def grammar_request_def await_consume_def consume_begin_def
        refill_def callLMStudio_def tryLMStudio_def request_provider_def local_reply_def has_key_def
        Let_def parseSuggestions_def jsonMatch_def handleError_def classify_def UNKNOWN_ERROR_def)

lemma parse_local_reply:
  assumes local: "provider s = ''local'' \<or> provider s = ''lmstudio''"
    and miss: "lru_get (clock s) (generateCacheKey req) (cache s) = (None, c)"
    and op: "operation req = ''grammar-check'' \<or> operation req = ''rephrase''"
    and net: "post ev LMStudio req (length (posts s)) = (latency, Inr payload)"
  shows "(payload = pfx @ CHR ''['' # mid @ CHR '']'' # sfx \<and> CHR ''['' \<notin> set pfx \<and> CHR '']'' \<notin> set sfx
            \<and> JSON_parse ev (CHR ''['' # mid @ [CHR '']'']) = Inr (JArr vs) \<and> formatSuggestions vs = Inr ss
          \<longrightarrow> fst (processRequest ev req s)
                = Inr \<lparr>original = req_text req, suggestions = ss, error = None\<rparr>)
       \<and> (\<not> (\<exists>pfx mid sfx. payload = pfx @ CHR ''['' # mid @ CHR '']'' # sfx) \<and> \<not> has_key s ''gemini''
          \<longrightarrow> fst (processRequest ev req s)
                = Inr \<lparr>original = req_text req, suggestions = [],
                       error = Some ''ERR_UNKNOWN: Failed to parse LM Studio response''\<rparr>)"
proof (intro conjI impI)
  assume a: "payload = pfx @ CHR ''['' # mid @ CHR '']'' # sfx \<and> CHR ''['' \<notin> set pfx \<and> CHR '']'' \<notin> set sfx
            \<and> JSON_parse ev (CHR ''['' # mid @ [CHR '']'']) = Inr (JArr vs) \<and> formatSuggestions vs = Inr ss"
  then have "jsonMatch payload = Some (CHR ''['' # mid @ [CHR '']''])"
    using jsonMatch_bracketed [of pfx sfx mid] by simp
  then have "parseSuggestions ev ''LM Studio'' payload = Inr ss"
    using a by (simp add: parseSuggestions_def)
  then show "fst (processRequest ev req s) = Inr \<lparr>original = req_text req, suggestions = ss, error = None\<rparr>"
    by (rule processRequest_local_reply(1) [OF local miss op net])
next
  assume a: "\<not> (\<exists>pfx mid sfx. payload = pfx @ CHR ''['' # mid @ CHR '']'' # sfx) \<and> \<not> has_key s ''gemini''"
  then have "jsonMatch payload = None"
    by (simp add: jsonMatch_None_iff)
  then have "parseSuggestions ev ''LM Studio'' payload = Inl (ErrorObj ''Failed to parse LM Studio response'')"
    by (simp add: parseSuggestions_def)
  then have "fst (processRequest ev req s) = Inr (handleError (ErrorObj ''Failed to parse LM Studio response'') req)"
    using a by (intro processRequest_local_reply(2) [OF local miss op net]) simp_all
  then show "fst (processRequest ev req s)
                = Inr \<lparr>original = req_text req, suggestions = [],
                       error = Some ''ERR_UNKNOWN: Failed to parse LM Studio response''\<rparr>"
    by (simp add: handleError_def classify_def UNKNOWN_ERROR_def)
qed

text \<open>
  C8 as amended. In every adapter (\<open>label\<close> names it), what is parsed is the text from
  the first opening bracket of the payload to its last closing bracket: when the payload is
  an array with text before it that has no opening bracket and text after it that has no
  closing bracket, the array is handed to \<^verbatim>\<open>JSON.parse\<close>, and the values it returns
  are made into the suggestions; when no closing bracket follows an opening bracket, the
  adapter throws \<^verbatim>\<open>Failed to parse ... response\<close>. For the local provider, asked
  because the cache has no live entry and answering with \<open>payload\<close>: in the first case,
  the array parsing to the values \<open>vs\<close>, the response carries the suggestions made from
  \<open>vs\<close> and no error; in the second, there being no key for the fallback, the response
  has no suggestions and the error \<^verbatim>\<open>ERR_UNKNOWN: Failed to parse LM Studio response\<close>.
  Nothing is thrown.
\<close>

theorem parse_first_to_last_bracket:
  "(payload = pfx @ CHR ''['' # mid @ CHR '']'' # sfx \<and> CHR ''['' \<notin> set pfx \<and> CHR '']'' \<notin> set sfx
      \<longrightarrow> parseSuggestions ev label payload =
            (case JSON_parse ev (CHR ''['' # mid @ [CHR '']'']) of
               Inl msg \<Rightarrow> Inl (ErrorObj msg)
             | Inr (JArr vs) \<Rightarrow> formatSuggestions vs
             | Inr _ \<Rightarrow> Inl (ErrorObj ''suggestions.map is not a function'')))
   \<and> (\<not> (\<exists>pfx mid sfx. payload = pfx @ CHR ''['' # mid @ CHR '']'' # sfx)
      \<longrightarrow> parseSuggestions ev label payload = Inl (ErrorObj (''Failed to parse '' @ label @ '' response'')))
   \<and> ((provider s = ''local'' \<or> provider s = ''lmstudio'')
        \<and> lru_get (clock s) (generateCacheKey req) (cache s) = (None, c)
        \<and> (operation req = ''grammar-check'' \<or> operation req = ''rephrase'')
        \<and> post ev LMStudio req (length (posts s)) = (latency, Inr payload)
      \<longrightarrow>
        (payload = pfx @ CHR ''['' # mid @ CHR '']'' # sfx \<and> CHR ''['' \<notin> set pfx \<and> CHR '']'' \<notin> set sfx
            \<and> JSON_parse ev (CHR ''['' # mid @ [CHR '']'']) = Inr (JArr vs) \<and> formatSuggestions vs = Inr ss
          \<longrightarrow> fst (processRequest ev req s)
                = Inr \<lparr>original = req_text req, suggestions = ss, error = None\<rparr>)
        \<and> (\<not> (\<exists>pfx mid sfx. payload = pfx @ CHR ''['' # mid @ CHR '']'' # sfx) \<and> \<not> has_key s ''gemini''
          \<longrightarrow> fst (processRequest ev req s)
                = Inr \<lparr>original = req_text req, suggestions = [],
                       error = Some ''ERR_UNKNOWN: Failed to parse LM Studio response''\<rparr>))"
proof -
  have one: "payload = pfx @ CHR ''['' # mid @ CHR '']'' # sfx \<and> CHR ''['' \<notin> set pfx \<and> CHR '']'' \<notin> set sfx
      \<longrightarrow> parseSuggestions ev label payload =
            (case JSON_parse ev (CHR ''['' # mid @ [CHR '']'']) of
               Inl msg \<Rightarrow> Inl (ErrorObj msg)
             | Inr (JArr vs) \<Rightarrow> formatSuggestions vs
             | Inr _ \<Rightarrow> Inl (ErrorObj ''suggestions.map is not a function''))"
    using jsonMatch_bracketed [of pfx sfx mid] by (simp add: parseSuggestions_def)
  have two: "\<not> (\<exists>pfx mid sfx. payload = pfx @ CHR ''['' # mid @ CHR '']'' # sfx)
      \<longrightarrow> parseSuggestions ev label payload = Inl (ErrorObj (''Failed to parse '' @ label @ '' response''))"
  proof
    assume "\<not> (\<exists>pfx mid sfx. payload = pfx @ CHR ''['' # mid @ CHR '']'' # sfx)"
    then have "jsonMatch payload = None" by (simp add: jsonMatch_None_iff)
    then show "parseSuggestions ev label payload = Inl (ErrorObj (''Failed to parse '' @ label @ '' response''))"
      by (simp add: parseSuggestions_def)
  qed
  show ?thesis
    using one two parse_local_reply [of s req c ev latency payload pfx mid sfx vs ss] by blast
qed

theorem parse_first_to_last_bracket_witness:
  "provider (new_LLMService None None 0) = ''local''
   \<and> \<not> has_key (new_LLMService None None 0) ''gemini''
   \<and> fst (processRequest school_env (grammar_request ''He go to school'') (new_LLMService None None 0))
       = Inr \<lparr>original = ''He go to school'',
              suggestions = [\<lparr>s_text = JStr ''He goes to school'', s_confidence = JNum 0.95,
                              s_type = JStr ''grammar''\<rparr>],
              error = None\<rparr>
   \<and> fst (processRequest (local_reply ''No corrections needed.'') (grammar_request ''He go to school'')
        (new_LLMService None None 0))
       = Inr \<lparr>original = ''He go to school'', suggestions = [],
              error = Some ''ERR_UNKNOWN: Failed to parse LM Studio response''\<rparr>"
proof -
  define s where "s = new_LLMService None None 0"
  define req where "req = grammar_request ''He go to school''"
  define v where "v = JObj [(''text'', JStr ''He goes to school''), (''confidence'', JNum 0.95),
                            (''type'', JStr ''grammar'')]"
  have local: "provider s = ''local'' \<or> provider s = ''lmstudio''"
    by (simp add: s_def new_LLMService_def)
  have miss: "lru_get (clock s) (generateCacheKey req) (cache s) = (None, cache s)"
    by (simp add: s_def new_LLMService_def new_LRUCache_def lru_get_def)
  have op: "operation req = ''grammar-check'' \<or> operation req = ''rephrase''"
    by (simp add: req_def grammar_request_def)
  have nokey: "\<not> has_key s ''gemini''"
    by (simp add: s_def new_LLMService_def has_key_def)
  have net1: "post school_env LMStudio req (length (posts s)) = (50, Inr school_reply)"
    by (simp add: school_env_def)
  have shape: "school_reply = (''```json'' @ [CHR 0x0A]) @ CHR ''['' # school_inner @ CHR '']'' # (CHR 0x0A # ''```'')"
    by (simp add: school_reply_def)
  have brackets: "CHR ''['' \<notin> set (''```json'' @ [CHR 0x0A])" "CHR '']'' \<notin> set (CHR 0x0A # ''```'')"
    by simp_all
  have parse: "JSON_parse school_env (CHR ''['' # school_inner @ [CHR '']'']) = Inr (JArr [v])"
    by (simp add: school_env_def v_def)
  have fmt: "formatSuggestions [v] = Inr [\<lparr>s_text = JStr ''He goes to school'', s_confidence = JNum 0.95,
                              s_type = JStr ''grammar''\<rparr>]"
    by (simp add: v_def formatSuggestion_def js_or_def)
  have net2: "post (local_reply ''No corrections needed.'') LMStudio req (length (posts s))
               = (50, Inr ''No corrections needed.'')"
    by (simp add: local_reply_def)
  have "jsonMatch ''No corrections needed.'' = None"
    by (simp add: jsonMatch_def)
  then have none: "\<not> (\<exists>pfx mid sfx. ''No corrections needed.'' = pfx @ CHR ''['' # mid @ CHR '']'' # sfx)"
    by (simp add: jsonMatch_None_iff)
  from parse_first_to_last_bracket [of school_reply "''```json'' @ [CHR 0x0A]" school_inner
      "CHR 0x0A # ''```''" school_env "''LM Studio''" s req "cache s" 50 "[v]"
      "[\<lparr>s_text = JStr ''He goes to school'', s_confidence = JNum 0.95,
                              s_type = JStr ''grammar''\<rparr>]"]
    local miss op net1 shape brackets parse fmt
  have one: "fst (processRequest school_env req s)
       = Inr \<lparr>original = req_text req,
              suggestions = [\<lparr>s_text = JStr ''He goes to school'', s_confidence = JNum 0.95,
                              s_type = JStr ''grammar''\<rparr>],
              error = None\<rparr>"
    by blast
  from parse_first_to_last_bracket [of "''No corrections needed.''" _ _ _
      "local_reply ''No corrections needed.''" "''LM Studio''" s req "cache s" 50]
    local miss op net2 none nokey
  have two: "fst (processRequest (local_reply ''No corrections needed.'') req s)
       = Inr \<lparr>original = req_text req, suggestions = [],
              error = Some ''ERR_UNKNOWN: Failed to parse LM Studio response''\<rparr>"
    by blast
  have "req_text req = ''He go to school''" by (simp add: req_def grammar_request_def)
  then show ?thesis
    using one two local nokey unfolding s_def req_def by (simp add: new_LLMService_def)
qed

subsection \<open>Properties of the debouncer\<close>

lemma debounce_overwrites [simp]:
  "debounce now p func (debounce now' p' func' d) = debounce now p func d"
  by (simp add: debounce_def Let_def)

lemma debounce_fields [simp]:
  "lastCall (debounce now p func d) = lastCall d"
  "delay (debounce now p func d) = delay d"
  "timeout (debounce now p func d) = Some (p, func, now + max 0 (delay d - (now - lastCall d)))"
  by (simp_all add: debounce_def Let_def)

lemma drun_append: "drun exec (es @ fs) sys = drun exec fs (drun exec es sys)"
  by (simp add: drun_def)

lemma drun_Cons: "drun exec (e # es) sys = drun exec es (dstep exec sys e)"
  by (simp add: drun_def)

lemma drun_Nil [simp]: "drun exec [] sys = sys"
  by (simp add: drun_def)

text \<open>Calls that follow each other with no timer firing in between: all that is left of
  them is the timer of the last.\<close>

lemma drun_calls:
  assumes "cs \<noteq> []" and "last cs = (tn, pn, fn)"
  shows "drun exec (map (\<lambda>(now, p, func). Debounce now p func) cs) sys
           = sys\<lparr>deb := debounce tn pn fn (deb sys)\<rparr>"
  using assms
proof (induction cs arbitrary: sys)
  case Nil
  then show ?case by simp
next
  case (Cons c cs)
  obtain now p func where c: "c = (now, p, func)" by (cases c)
  show ?case
  proof (cases "cs = []")
    case True
    then show ?thesis using Cons.prems c by (simp add: drun_Cons dstep_def)
  next
    case False
    then have "last cs = (tn, pn, fn)" using Cons.prems by simp
    from Cons.IH [OF False this]
    show ?thesis using c by (simp add: drun_Cons dstep_def)
  qed
qed

text \<open>A timer that is not yet due does nothing; a due timer calls its function and settles
  its promise with the outcome.\<close>

lemma timer_early:
  assumes "timeout (deb sys) = Some (p, func, due)" and "t < due"
  shows "dstep exec sys (Timeout t) = sys"
  using assms by (simp add: dstep_def timer_fires_def)

lemma timers_early:
  assumes "timeout (deb sys) = Some (p, func, due)" and "\<forall>t \<in> set ts. t < due"
  shows "drun exec (map Timeout ts) sys = sys"
  using assms
proof (induction ts)
  case Nil
  then show ?case by simp
next
  case (Cons t ts)
  then show ?case by (simp add: drun_Cons timer_early [of sys p func due t exec])
qed

lemma timer_due:
  assumes "timeout (deb sys) = Some (p, func, due)" and "due \<le> t"
  shows "dstep exec sys (Timeout t) =
           sys\<lparr>deb := (deb sys)\<lparr>timeout := None, lastCall := t\<rparr>,
               called := called sys @ [p], settled := settled sys @ [(p, exec func)]\<rparr>"
  using assms by (simp add: dstep_def timer_fires_def)

text \<open>
  The callback of its timer alone holds \<^verbatim>\<open>resolve\<close> and \<^verbatim>\<open>reject\<close> of a
  promise. So a promise that has no timer, is not settled and is not handed out again stays
  pending whatever follows, and its function is not called: the caller of a call whose
  timer was cleared by a later call waits without end.
\<close>

lemma never_settled:
  assumes "\<forall>func due. timeout (deb sys) \<noteq> Some (p, func, due)"
    and "p \<notin> fst ` set (settled sys)" and "p \<notin> set (called sys)"
    and "p \<notin> set (promises es)"
  shows "p \<notin> fst ` set (settled (drun exec es sys)) \<and> p \<notin> set (called (drun exec es sys))"
  using assms
proof (induction es arbitrary: sys)
  case Nil
  then show ?case by simp
next
  case (Cons e es)
  have step: "(\<forall>func due. timeout (deb (dstep exec sys e)) \<noteq> Some (p, func, due))
      \<and> p \<notin> fst ` set (settled (dstep exec sys e)) \<and> p \<notin> set (called (dstep exec sys e))"
  proof (cases e)
    case (Debounce now q func)
    then show ?thesis using Cons.prems by (simp add: dstep_def)
  next
    case (Timeout now)
    then show ?thesis using Cons.prems
      by (auto simp: dstep_def timer_fires_def split: option.splits prod.splits if_splits)
  qed
  have "p \<notin> set (promises es)" using Cons.prems(4) by (cases e) simp_all
  with step Cons.IH [of "dstep exec sys e"] show ?case
    by (simp add: drun_Cons)
qed

text \<open>
  C4 claims that a burst of calls leads to one invocation whose result is delivered to
  every caller of the burst. A new debouncer with delay 500 receives three calls at the
  times 1000, 1050 and 1100 (its timers run when due, at 1000 and at 1500): the functions
  of the first and the third call are invoked, two invocations, each settling its own
  promise, and the second promise is not settled. When the three calls come at the same
  instant, the third function alone is invoked and the first two promises are not settled.
\<close>

theorem burst_not_delivered_to_all:
  "drun Inr [Debounce 1000 1 ''a'', Timeout 1000, Debounce 1050 2 ''b'', Debounce 1100 3 ''c'', Timeout 1500]
      (new_debounced 500)
     = \<lparr>deb = \<lparr>timeout = None, lastCall = 1500, delay = 500\<rparr>, called = [1, 3],
        settled = [(1, Inr ''a''), (3, Inr ''c'')]\<rparr>
   \<and> drun Inr [Debounce 1000 1 ''a'', Debounce 1000 2 ''b'', Debounce 1000 3 ''c'', Timeout 1000]
      (new_debounced 500)
     = \<lparr>deb = \<lparr>timeout = None, lastCall = 1000, delay = 500\<rparr>, called = [3],
        settled = [(3, Inr ''c'')]\<rparr>"
  by (simp add: drun_def dstep_def debounce_def timer_fires_def new_debounced_def new_Debouncer_def Let_def)

text \<open>
  C4 as amended. In a burst of calls \<open>cs\<close> (time, promise, function) during which no
  timer fires, each call cancels the timer of the call before it. The timer of the last
  call, made at the time \<open>tn\<close>, is due \<^verbatim>\<open>max(0, delay - (tn - lastCall))\<close> later,
  \<^verbatim>\<open>lastCall\<close> being the time of the invocation before the burst. Whenever the event
  loop looks at the timer before that time (\<open>ts\<close>), no function is invoked and no promise
  settled. When it looks at the timer at that time or later (\<open>t\<close>), one function is
  invoked, that of the last call, and the promise of the last call is settled with the
  outcome of this invocation.
\<close>

theorem burst_runs_last_call_only:
  assumes burst: "cs \<noteq> []" "last cs = (tn, pn, fn)"
    and early: "\<forall>t' \<in> set ts. t' < tn + max 0 (delay (deb sys) - (tn - lastCall (deb sys)))"
    and due: "tn + max 0 (delay (deb sys) - (tn - lastCall (deb sys))) \<le> t"
  shows "called (drun exec (map (\<lambda>(now, p, func). Debounce now p func) cs @ map Timeout ts) sys)
           = called sys
       \<and> settled (drun exec (map (\<lambda>(now, p, func). Debounce now p func) cs @ map Timeout ts) sys)
           = settled sys
       \<and> called (drun exec (map (\<lambda>(now, p, func). Debounce now p func) cs @ map Timeout ts @ [Timeout t]) sys)
           = called sys @ [pn]
       \<and> filter (\<lambda>s. fst s = pn)
           (settled (drun exec (map (\<lambda>(now, p, func). Debounce now p func) cs @ map Timeout ts @ [Timeout t]) sys))
           = filter (\<lambda>s. fst s = pn) (settled sys) @ [(pn, exec fn)]"
proof -
  define calls where "calls = map (\<lambda>(now, p, func). Debounce now p func) cs"
  define due_time where "due_time = tn + max 0 (delay (deb sys) - (tn - lastCall (deb sys)))"
  define sys1 where "sys1 = drun exec calls sys"
  define sys2 where "sys2 = dstep exec sys1 (Timeout t)"
  have s1: "sys1 = sys\<lparr>deb := debounce tn pn fn (deb sys)\<rparr>"
    unfolding sys1_def calls_def by (rule drun_calls [OF burst])
  have pending: "timeout (deb sys1) = Some (pn, fn, due_time)"
    by (simp add: s1 due_time_def)
  have quiet: "drun exec (map Timeout ts) sys1 = sys1"
    using pending early unfolding due_time_def [symmetric] by (rule timers_early)
  have s2: "sys2 = sys1\<lparr>deb := (deb sys1)\<lparr>timeout := None, lastCall := t\<rparr>,
                       called := called sys1 @ [pn], settled := settled sys1 @ [(pn, exec fn)]\<rparr>"
    unfolding sys2_def using pending due unfolding due_time_def [symmetric] by (rule timer_due)
  have r1: "drun exec (calls @ map Timeout ts) sys = sys1"
    by (simp add: drun_append quiet sys1_def [symmetric])
  have r2: "drun exec (calls @ map Timeout ts @ [Timeout t]) sys = sys2"
    by (simp add: drun_append drun_Cons quiet sys1_def [symmetric] sys2_def)
  show ?thesis
    unfolding calls_def [symmetric] r1 r2 by (simp add: s2) (simp add: s1)
qed

theorem burst_runs_last_call_only_witness:
  "called (drun Inr [Debounce 1050 2 ''b'', Debounce 1100 3 ''c'', Timeout 1100, Timeout 1499]
      \<lparr>deb = \<lparr>timeout = None, lastCall = 1000, delay = 500\<rparr>, called = [1], settled = [(1, Inr ''a'')]\<rparr>) = [1]
   \<and> settled (drun Inr [Debounce 1050 2 ''b'', Debounce 1100 3 ''c'', Timeout 1100, Timeout 1499]
      \<lparr>deb = \<lparr>timeout = None, lastCall = 1000, delay = 500\<rparr>, called = [1], settled = [(1, Inr ''a'')]\<rparr>)
       = [(1, Inr ''a'')]
   \<and> called (drun Inr [Debounce 1050 2 ''b'', Debounce 1100 3 ''c'', Timeout 1100, Timeout 1499, Timeout 1500]
      \<lparr>deb = \<lparr>timeout = None, lastCall = 1000, delay = 500\<rparr>, called = [1], settled = [(1, Inr ''a'')]\<rparr>) = [1, 3]
   \<and> filter (\<lambda>s. fst s = 3)
       (settled (drun Inr [Debounce 1050 2 ''b'', Debounce 1100 3 ''c'', Timeout 1100, Timeout 1499, Timeout 1500]
          \<lparr>deb = \<lparr>timeout = None, lastCall = 1000, delay = 500\<rparr>, called = [1], settled = [(1, Inr ''a'')]\<rparr>))
       = [(3, Inr ''c'')]"
proof -
  define sys :: "(string, string) debounced"
    where "sys = \<lparr>deb = \<lparr>timeout = None, lastCall = 1000, delay = 500\<rparr>, called = [1], settled = [(1, Inr ''a'')]\<rparr>"
  define cs :: "(int \<times> nat \<times> string) list" where "cs = [(1050, 2, ''b''), (1100, 3, ''c'')]"
  have h: "cs \<noteq> []" "last cs = (1100, 3, ''c'')"
    "\<forall>t' \<in> set [1100, 1499]. t' < 1100 + max 0 (delay (deb sys) - (1100 - lastCall (deb sys)))"
    "1100 + max 0 (delay (deb sys) - (1100 - lastCall (deb sys))) \<le> 1500"
    by (simp_all add: cs_def sys_def)
  from burst_runs_last_call_only [OF h, of Inr]
  show ?thesis
    by (simp add: cs_def sys_def)
qed

text \<open>
  The state in which the burst above starts is the one that a first call on a new
  debouncer leaves behind, once its function has run.
\<close>

lemma after_first_call:
  "drun Inr [Debounce 1000 1 ''a'', Timeout 1000] (new_debounced 500)
     = \<lparr>deb = \<lparr>timeout = None, lastCall = 1000, delay = 500\<rparr>, called = [1], settled = [(1, Inr ''a'')]\<rparr>"
  by (simp add: drun_def dstep_def debounce_def timer_fires_def new_debounced_def new_Debouncer_def Let_def)

text \<open>
  Two grammar checks of a new processor at the same instant, for two texts, as
  \<^verbatim>\<open>processBatch\<close> makes them: when the timer has run, the promise of the second is
  resolved with the reply to it, no timer is left, and the promise of the first is still
  pending, so that \<^verbatim>\<open>Promise.all\<close> over the two does not settle.
\<close>

lemma batch_of_two:
  "p_settled (LLMProcessor_timer (on_line (Some r)) 500
      (LLMProcessor_checkGrammar 0 2 ''second'' None
        (LLMProcessor_checkGrammar 0 1 ''first'' None new_LLMProcessor)))
     = [(2, Inr (Some r))]
   \<and> timeout (requestDebouncer (LLMProcessor_timer (on_line (Some r)) 500
      (LLMProcessor_checkGrammar 0 2 ''second'' None
        (LLMProcessor_checkGrammar 0 1 ''first'' None new_LLMProcessor)))) = None"
  by (simp add: LLMProcessor_timer_def LLMProcessor_checkGrammar_def LLMProcessor_call_def
      new_LLMProcessor_def new_LRUCache_def new_Debouncer_def lru_get_def timer_fires_def
      run_task_def on_line_def Let_def debounce_def split: prod.splits)

subsection \<open>Off line\<close>






lemma LLMProcessor_call_ipc_log: "ipc_log (LLMProcessor_call now p t pr) = ipc_log pr"
  by (simp add: LLMProcessor_call_def split: prod.splits option.splits)



text \<open>
  A text none of whose words, lower-cased, is a key of the table or one of the two names
  \<^verbatim>\<open>constructor\<close> and \<^verbatim>\<open>__proto__\<close> gets the response with no suggestions
  and the error \<^verbatim>\<open>No issues found in offline mode\<close>.
\<close>

lemma offline_clean_text:
  assumes "\<forall>w \<in> set (split_ws txt).
             map_of commonMisspellings (toLowerCase w) = None
           \<and> toLowerCase w \<noteq> ''constructor'' \<and> toLowerCase w \<noteq> ''__proto__''"
  shows "handleOfflineMode txt =
       \<lparr>original = txt, suggestions = [], error = Some ''No issues found in offline mode''\<rparr>"
proof -
  have "\<forall>w \<in> set (split_ws txt). \<not> truthy (misspelling (toLowerCase w))"
    using assms by (simp add: misspelling_def)
  then have "filter (\<lambda>w. truthy (misspelling (toLowerCase w))) (split_ws txt) = []"
    by (simp add: filter_empty_conv)
  then show ?thesis
    by (simp add: handleOfflineMode_def findMisspelledWords_def Let_def)
qed

lemma offline_proto_flagged:
  "handleOfflineMode ''__proto__'' =
       \<lparr>original = ''__proto__'',
        suggestions = [\<lparr>s_text = JHost ''Object.prototype'', s_confidence = JNum 0.7, s_type = JStr ''spelling''\<rparr>],
        error = None\<rparr>"
  by (simp add: handleOfflineMode_def findMisspelledWords_def split_ws_def is_space_def
      toLowerCase_def lower_char_def misspelling_def commonMisspellings_def Let_def)

text \<open>
  C10 claims that, off line, every text none of whose words matches the dictionary of
  misspellings gets the response with no suggestions and the error
  \<^verbatim>\<open>No issues found in offline mode\<close>. The text \<^verbatim>\<open>constructor\<close> is one word,
  which is not among the twelve entries of the dictionary. The look-up
  \<^verbatim>\<open>commonMisspellings[word.toLowerCase()]\<close> finds the inherited property of that
  name, a function and so truthy: the response holds one suggestion, whose text is that
  function, and no error.
\<close>

theorem offline_constructor_flagged:
  "split_ws ''constructor'' = [''constructor'']
   \<and> map_of commonMisspellings (toLowerCase ''constructor'') = None
   \<and> handleOfflineMode ''constructor'' =
       \<lparr>original = ''constructor'',
        suggestions = [\<lparr>s_text = JHost ''Object'', s_confidence = JNum 0.7, s_type = JStr ''spelling''\<rparr>],
        error = None\<rparr>"
  by (simp add: handleOfflineMode_def findMisspelledWords_def split_ws_def is_space_def
      toLowerCase_def lower_char_def misspelling_def commonMisspellings_def Let_def)

end
